theory Spec2Isabelle
  imports Main
begin

section \<open>JavaScript strings\<close>

text \<open>
  A JavaScript string is a sequence of UTF-16 code units. A code unit is modelled by its
  number, so that the line terminators and white space characters above U+00FF, which the
  regular expressions of the scripts distinguish, are characters of the model.
  \<open>js\<close> embeds an ASCII literal.
\<close>

type_synonym jschar = nat
type_synonym jsstring = "jschar list"

definition js :: "string \<Rightarrow> jsstring" where
  "js s = map of_char s"

abbreviation c_star :: jschar where "c_star \<equiv> 42"
abbreviation c_dot :: jschar where "c_dot \<equiv> 46"
abbreviation c_bslash :: jschar where "c_bslash \<equiv> 92"
abbreviation c_caret :: jschar where "c_caret \<equiv> 94"
abbreviation c_dollar :: jschar where "c_dollar \<equiv> 36"
abbreviation c_comma :: jschar where "c_comma \<equiv> 44"

text \<open>ECMAScript \<open>LineTerminator\<close>: LF, CR, U+2028, U+2029.\<close>

definition is_line_terminator :: "jschar \<Rightarrow> bool" where
  "is_line_terminator c = (c = 10 \<or> c = 13 \<or> c = 8232 \<or> c = 8233)"

text \<open>
  The characters of \<open>\s\<close> and of \<open>String.prototype.trim\<close>: ECMAScript \<open>WhiteSpace\<close>
  (TAB, VT, FF, SP, NBSP, U+FEFF and the category Zs) together with the line terminators.
\<close>

definition is_white_space :: "jschar \<Rightarrow> bool" where
  "is_white_space c =
     (c = 9 \<or> c = 11 \<or> c = 12 \<or> c = 32 \<or> c = 160 \<or> c = 5760 \<or>
      (8192 \<le> c \<and> c \<le> 8202) \<or> c = 8239 \<or> c = 8287 \<or> c = 12288 \<or> c = 65279 \<or>
      is_line_terminator c)"

definition trim :: "jsstring \<Rightarrow> jsstring" where
  "trim s = rev (dropWhile is_white_space (rev (dropWhile is_white_space s)))"

text \<open>\<open>s.split(sep)\<close> for a separator of one character: never the empty list.\<close>

fun split_on :: "jschar \<Rightarrow> jsstring \<Rightarrow> jsstring list" where
  "split_on sep [] = [[]]"
| "split_on sep (c # cs) =
     (if c = sep then [] # split_on sep cs
      else (case split_on sep cs of
              [] \<Rightarrow> [[c]]
            | seg # segs \<Rightarrow> (c # seg) # segs))"

text \<open>\<open>parts.join(sep)\<close>.\<close>

fun join_with :: "jsstring \<Rightarrow> jsstring list \<Rightarrow> jsstring" where
  "join_with sep [] = []"
| "join_with sep [p] = p"
| "join_with sep (p # q # ps) = p @ sep @ join_with sep (q # ps)"

definition startsWith :: "jsstring \<Rightarrow> jsstring \<Rightarrow> bool" where
  "startsWith s p = (take (length p) s = p)"

definition endsWith :: "jsstring \<Rightarrow> jsstring \<Rightarrow> bool" where
  "endsWith s p = (length p \<le> length s \<and> drop (length s - length p) s = p)"

section \<open>Regular expressions\<close>

text \<open>
  The fragment of ECMAScript regular expressions (without the \<open>u\<close> flag) that the scripts
  use: literal characters, the classes \<open>.\<close> and \<open>\s\<close> under the greedy quantifiers
  \<open>*\<close> and \<open>+\<close>, the assertions \<open>^\<close> and \<open>$\<close>, and one capture group, written
  flat as an opening and a closing mark.
\<close>

datatype cls = Dot | Space

fun in_cls :: "cls \<Rightarrow> jschar \<Rightarrow> bool" where
  "in_cls Dot c = (\<not> is_line_terminator c)"
| "in_cls Space c = is_white_space c"

datatype node = Char jschar | Star cls | Plus cls | Bol | Eol | GroupOpen | GroupClose

text \<open>
  The capture state: whether the group is open, and the characters it has consumed.
\<close>

type_synonym capture = "bool \<times> jsstring"

fun push :: "capture \<Rightarrow> jschar \<Rightarrow> capture" where
  "push (recording, g) c = (if recording then (True, g @ [c]) else (False, g))"

text \<open>
  The backtracking matcher of the language specification, at one start position:
  \<open>prev\<close> is the character before the current position (\<open>None\<close> at the start of the
  input), \<open>rest\<close> the input from the current position. A greedy quantifier first tries
  one more character and falls back to the continuation. The result is the text of the
  capture group of the first match found, \<open>None\<close> when there is no match. \<open>ml\<close> is
  the \<open>m\<close> flag.
\<close>

fun rx_run :: "bool \<Rightarrow> node list \<Rightarrow> jschar option \<Rightarrow> jsstring \<Rightarrow> capture \<Rightarrow> jsstring option" where
  "rx_run ml [] prev rest cap = Some (snd cap)"
| "rx_run ml (Char c # k) prev rest cap =
     (case rest of
        [] \<Rightarrow> None
      | x # xs \<Rightarrow> if x = c then rx_run ml k (Some x) xs (push cap x) else None)"
| "rx_run ml (Star cl # k) prev rest cap =
     (case rest of
        [] \<Rightarrow> rx_run ml k prev rest cap
      | x # xs \<Rightarrow>
          if in_cls cl x then
            (case rx_run ml (Star cl # k) (Some x) xs (push cap x) of
               Some g \<Rightarrow> Some g
             | None \<Rightarrow> rx_run ml k prev rest cap)
          else rx_run ml k prev rest cap)"
| "rx_run ml (Plus cl # k) prev rest cap =
     (case rest of
        [] \<Rightarrow> None
      | x # xs \<Rightarrow>
          if in_cls cl x then rx_run ml (Star cl # k) (Some x) xs (push cap x) else None)"
| "rx_run ml (Bol # k) prev rest cap =
     (if prev = None \<or> (ml \<and> (case prev of Some p \<Rightarrow> is_line_terminator p | None \<Rightarrow> False))
      then rx_run ml k prev rest cap else None)"
| "rx_run ml (Eol # k) prev rest cap =
     (if rest = [] \<or> (ml \<and> (case rest of x # _ \<Rightarrow> is_line_terminator x | [] \<Rightarrow> False))
      then rx_run ml k prev rest cap else None)"
| "rx_run ml (GroupOpen # k) prev rest cap = rx_run ml k prev rest (True, [])"
| "rx_run ml (GroupClose # k) prev rest cap = rx_run ml k prev rest (False, snd cap)"

text \<open>
  \<open>RegExp.prototype.exec\<close> of a regular expression without the \<open>g\<close> and \<open>y\<close>
  flags: the start positions are tried from left to right.
\<close>

fun exec_from :: "bool \<Rightarrow> node list \<Rightarrow> jschar option \<Rightarrow> jsstring \<Rightarrow> jsstring option" where
  "exec_from ml r prev [] = rx_run ml r prev [] (False, [])"
| "exec_from ml r prev (x # xs) =
     (case rx_run ml r prev (x # xs) (False, []) of
        Some g \<Rightarrow> Some g
      | None \<Rightarrow> exec_from ml r (Some x) xs)"

definition exec :: "bool \<Rightarrow> node list \<Rightarrow> jsstring \<Rightarrow> jsstring option" where
  "exec ml r s = exec_from ml r None s"

section \<open>The pattern matcher of the batch script\<close>

text \<open>
  The characters of the class \<open>[.*+?^${}()|[\]\\]\<close>, which \<open>matches\<close> escapes: they are
  the \<open>SyntaxCharacter\<close>s of the regular expression grammar.
\<close>

definition is_syntax_char :: "jschar \<Rightarrow> bool" where
  "is_syntax_char c = (c \<in> set (js ''.*+?^${}()|[]'') \<or> c = c_bslash)"

text \<open>\<open>p.replace(/[.*+?^${}()|[\]\\]/g, '\\$&')\<close>: a backslash before each such character.\<close>

fun escape :: "jsstring \<Rightarrow> jsstring" where
  "escape [] = []"
| "escape (c # cs) = (if is_syntax_char c then c_bslash # c # escape cs else c # escape cs)"

text \<open>The source text handed to \<open>new RegExp\<close>.\<close>

definition rx_source :: "jsstring \<Rightarrow> jsstring" where
  "rx_source pattern =
     [c_caret] @ join_with [c_dot, c_star] (map escape (split_on c_star pattern)) @ [c_dollar]"

text \<open>
  \<open>new RegExp(source)\<close>, for the sources in the fragment above: \<open>^\<close>, \<open>$\<close>, \<open>.*\<close>,
  a backslash before a syntax character (an identity escape) and any other character that
  is not a syntax character (it stands for itself). \<open>None\<close> is a source outside the
  fragment; \<open>rx_source\<close> never produces one (lemma \<open>parse_rx_source\<close>).
\<close>

fun parse_rx :: "jsstring \<Rightarrow> node list option" where
  "parse_rx [] = Some []"
| "parse_rx (c # cs) =
     (if c = c_bslash then
        (case cs of
           [] \<Rightarrow> None
         | d # ds \<Rightarrow> if is_syntax_char d then map_option ((#) (Char d)) (parse_rx ds) else None)
      else if c = c_dot then
        (case cs of
           [] \<Rightarrow> None
         | d # ds \<Rightarrow> if d = c_star then map_option ((#) (Star Dot)) (parse_rx ds) else None)
      else if c = c_caret then map_option ((#) Bol) (parse_rx cs)
      else if c = c_dollar then map_option ((#) Eol) (parse_rx cs)
      else if is_syntax_char c then None
      else map_option ((#) (Char c)) (parse_rx cs))"

text \<open>\<open>rx.test(name)\<close> for a regular expression without flags.\<close>

definition rx_test :: "node list \<Rightarrow> jsstring \<Rightarrow> bool" where
  "rx_test r name = (exec False r name \<noteq> None)"

text \<open>
  \<open>matches\<close> of \<^verbatim>\<open>scripts/build-all.mjs\<close>: the empty pattern matches every name, a
  pattern with a \<open>*\<close> is compiled to a regular expression, any other pattern is compared.
\<close>

definition matches :: "jsstring \<Rightarrow> jsstring \<Rightarrow> bool" where
  "matches name pattern =
     (if pattern = [] then True
      else if c_star \<in> set pattern then
        (case parse_rx (rx_source pattern) of
           Some rx \<Rightarrow> rx_test rx name
         | None \<Rightarrow> False)
      else name = pattern)"

text \<open>\<open>shouldSkip\<close> and \<open>isOnly\<close>, with the lists \<open>SKIP\<close> and \<open>ONLY\<close> as arguments.\<close>

definition shouldSkip :: "jsstring list \<Rightarrow> jsstring \<Rightarrow> bool" where
  "shouldSkip SKIP name = list_ex (\<lambda>p. matches name p) SKIP"

definition isOnly :: "jsstring list \<Rightarrow> jsstring \<Rightarrow> bool" where
  "isOnly ONLY name = (length ONLY = 0 \<or> list_ex (\<lambda>p. matches name p) ONLY)"

text \<open>
  \<open>(process.env.X ?? '').split(',').map((s) => s.trim()).filter(Boolean)\<close>: the list of
  patterns in an environment variable.
\<close>

definition pattern_list :: "jsstring option \<Rightarrow> jsstring list" where
  "pattern_list v =
     filter (\<lambda>s. s \<noteq> []) (map trim (split_on c_comma (case v of None \<Rightarrow> [] | Some s \<Rightarrow> s)))"

text \<open>
  The regular expression that \<open>rx_source\<close> denotes: the characters of each segment, and
  \<open>.*\<close> between two segments.
\<close>

fun glob_nodes :: "jsstring list \<Rightarrow> node list" where
  "glob_nodes [] = []"
| "glob_nodes [s] = map Char s"
| "glob_nodes (s # t # ss) = map Char s @ Star Dot # glob_nodes (t # ss)"

text \<open>
  The specification's reading of a pattern with \<open>*\<close>: the name is the literal segments in
  order, with any run of characters, possibly empty, between two consecutive segments.
\<close>

fun spec_decomposes :: "jsstring list \<Rightarrow> jsstring \<Rightarrow> bool" where
  "spec_decomposes [] name = (name = [])"
| "spec_decomposes [s] name = (name = s)"
| "spec_decomposes (s # t # ss) name = (\<exists>gap r. name = s @ gap @ r \<and> spec_decomposes (t # ss) r)"

text \<open>
  What the compiled regular expression accepts: as above, but no line terminator in the
  run of characters for a \<open>*\<close>, since \<open>.\<close> does not match one.
\<close>

fun glob_lang :: "jsstring list \<Rightarrow> jsstring \<Rightarrow> bool" where
  "glob_lang [] name = (name = [])"
| "glob_lang [s] name = (name = s)"
| "glob_lang (s # t # ss) name =
     (\<exists>gap r. name = s @ gap @ r \<and> list_all (\<lambda>c. \<not> is_line_terminator c) gap \<and>
        glob_lang (t # ss) r)"

text \<open>The character before the position reached after reading \<open>s\<close>.\<close>

definition last_or :: "jschar option \<Rightarrow> jsstring \<Rightarrow> jschar option" where
  "last_or prev s = (if s = [] then prev else Some (last s))"

section \<open>The file system, the environment and the effects\<close>

text \<open>
  \<open>path.join\<close> of a directory and a name. (\<open>path.join\<close> also normalises its result; the
  file system below is asked about the path as spelt and stands for the lookup of the
  operating system, which resolves both spellings alike.)
\<close>

type_synonym path = jsstring

definition join2 :: "path \<Rightarrow> jsstring \<Rightarrow> path" where
  "join2 d f = d @ js ''/'' @ f"

text \<open>
  What the scripts read of the file system. \<open>None\<close> is a call that throws:
  \<open>isDirectory\<close> is \<open>statSync(p).isDirectory()\<close>.
\<close>

record filesys =
  existsSync :: "path \<Rightarrow> bool"
  isDirectory :: "path \<Rightarrow> bool option"
  readdirSync :: "path \<Rightarrow> jsstring list option"
  readFileSync :: "path \<Rightarrow> jsstring option"

type_synonym env = "jsstring \<rightharpoonup> jsstring"

datatype error =
    FsError path
  | SpawnFailed jsstring "jsstring list" "nat option"
  | TypeError

text \<open>The options of \<open>spawn\<close> that differ between calls; \<open>stdio\<close> is always inherited.\<close>

record spawn_req =
  sp_cmd :: jsstring
  sp_args :: "jsstring list"
  sp_cwd :: path
  sp_env :: env

text \<open>
  The world a script runs in: the working directory, the file system, \<open>process.env\<close>, the
  code with which the child of a \<open>spawn\<close> closes (\<open>None\<close> is \<open>null\<close>: the child was
  ended by a signal), and whether creating a directory or writing a file succeeds.
\<close>

record world =
  w_root :: path
  w_fs :: filesys
  w_env :: env
  w_child :: "spawn_req \<Rightarrow> nat option"
  w_mkdir_ok :: "path \<Rightarrow> bool"
  w_write_ok :: "path \<Rightarrow> bool"

text \<open>The messages on the diagnostic stream, and the effects of a run in their order.\<close>

datatype diag =
    NoSlidesDir
  | BuildFailed error
  | NoDeckName
  | DeckNotFound path
  | NoEntry path
  | Uncaught error

datatype event =
    Stderr diag
  | Mkdir path
  | Spawn spawn_req
  | WriteFile path jsstring

text \<open>
  A step of a script: its effects, and whether it returned, threw or called
  \<open>process.exit\<close>.
\<close>

datatype 'a result = Return 'a | Throw error | Exit nat

type_synonym 'a step = "event list \<times> 'a result"

definition and_then :: "'a step \<Rightarrow> ('a \<Rightarrow> 'b step) \<Rightarrow> 'b step" where
  "and_then m f =
     (case m of
        (ev, Return x) \<Rightarrow> (case f x of (ev', r) \<Rightarrow> (ev @ ev', r))
      | (ev, Throw e) \<Rightarrow> (ev, Throw e)
      | (ev, Exit n) \<Rightarrow> (ev, Exit n))"

definition lift :: "error + 'a \<Rightarrow> 'a step" where
  "lift r = (case r of Inl e \<Rightarrow> ([], Throw e) | Inr x \<Rightarrow> ([], Return x))"

definition mkdirSync :: "world \<Rightarrow> path \<Rightarrow> unit step" where
  "mkdirSync w p = (if w_mkdir_ok w p then ([Mkdir p], Return ()) else ([], Throw (FsError p)))"

definition writeFileSync :: "world \<Rightarrow> path \<Rightarrow> jsstring \<Rightarrow> unit step" where
  "writeFileSync w p content =
     (if w_write_ok w p then ([WriteFile p content], Return ()) else ([], Throw (FsError p)))"

definition spawns :: "event list \<Rightarrow> spawn_req list" where
  "spawns tr = concat (map (\<lambda>e. case e of Spawn r \<Rightarrow> [r] | _ \<Rightarrow> []) tr)"

definition writes :: "event list \<Rightarrow> path list" where
  "writes tr = concat (map (\<lambda>e. case e of WriteFile p c \<Rightarrow> [p] | _ \<Rightarrow> []) tr)"

definition SLIDES_DIR :: "world \<Rightarrow> path" where
  "SLIDES_DIR w = join2 (w_root w) (js ''slides'')"

definition DIST_DIR :: "world \<Rightarrow> path" where
  "DIST_DIR w = join2 (w_root w) (js ''dist'')"

text \<open>\<open>a || b\<close> on values that are a string or \<open>undefined\<close>: the empty string is falsy.\<close>

definition js_or :: "jsstring option \<Rightarrow> jsstring option \<Rightarrow> jsstring option" where
  "js_or a b = (case a of None \<Rightarrow> b | Some s \<Rightarrow> if s = [] then b else Some s)"

section \<open>Entry resolution and discovery\<close>

definition candidates :: "jsstring list" where
  "candidates = [js ''slides.md'', js ''index.md'', js ''deck.md'', js ''presentation.md'']"

text \<open>The loop of \<open>findEntry\<close> over the candidates, which returns at the first that exists.\<close>

fun first_existing :: "filesys \<Rightarrow> path \<Rightarrow> jsstring list \<Rightarrow> jsstring option" where
  "first_existing fs deckPath [] = None"
| "first_existing fs deckPath (c # cs) =
     (if existsSync fs (join2 deckPath c) then Some c else first_existing fs deckPath cs)"

text \<open>\<open>findEntry\<close> of the batch script; \<open>Inr None\<close> is its \<open>null\<close>.\<close>

definition findEntry :: "filesys \<Rightarrow> path \<Rightarrow> error + jsstring option" where
  "findEntry fs deckPath =
     (case first_existing fs deckPath candidates of
        Some c \<Rightarrow> Inr (Some c)
      | None \<Rightarrow>
          (case readdirSync fs deckPath of
             None \<Rightarrow> Inl (FsError deckPath)
           | Some files \<Rightarrow>
               (case filter (\<lambda>f. endsWith f (js ''.md'')) files of
                  [] \<Rightarrow> Inr None
                | f # _ \<Rightarrow> Inr (Some f))))"

text \<open>
  The entry resolution of the dev script (lines 21 to 31): \<open>Array.prototype.find\<close> twice,
  each result tested with \<open>!\<close>. \<open>Inr None\<close> is the branch that reports the missing
  entry file.
\<close>

definition dev_entry :: "filesys \<Rightarrow> path \<Rightarrow> error + jsstring option" where
  "dev_entry fs deckPath =
     (case js_or (find (\<lambda>f. existsSync fs (join2 deckPath f)) candidates) None of
        Some entry \<Rightarrow> Inr (Some entry)
      | None \<Rightarrow>
          (case readdirSync fs deckPath of
             None \<Rightarrow> Inl (FsError deckPath)
           | Some files \<Rightarrow> Inr (js_or (find (\<lambda>f. endsWith f (js ''.md'')) files) None)))"

record deck =
  deck_name :: jsstring
  deck_path :: path
  deck_entry :: "jsstring option"

text \<open>\<open>Array.prototype.filter\<close> and \<open>map\<close> with a callback that may throw.\<close>

fun filterE :: "('a \<Rightarrow> error + bool) \<Rightarrow> 'a list \<Rightarrow> error + 'a list" where
  "filterE f [] = Inr []"
| "filterE f (x # xs) =
     (case f x of
        Inl e \<Rightarrow> Inl e
      | Inr b \<Rightarrow>
          (case filterE f xs of
             Inl e \<Rightarrow> Inl e
           | Inr ys \<Rightarrow> Inr (if b then x # ys else ys)))"

fun mapE :: "('a \<Rightarrow> error + 'b) \<Rightarrow> 'a list \<Rightarrow> error + 'b list" where
  "mapE f [] = Inr []"
| "mapE f (x # xs) =
     (case f x of
        Inl e \<Rightarrow> Inl e
      | Inr y \<Rightarrow> (case mapE f xs of Inl e \<Rightarrow> Inl e | Inr ys \<Rightarrow> Inr (y # ys)))"

text \<open>The callback of the filter in \<open>discoverDecks\<close>, with the short circuit of \<open>&&\<close>.\<close>

definition keep :: "filesys \<Rightarrow> path \<Rightarrow> jsstring list \<Rightarrow> jsstring list \<Rightarrow> jsstring \<Rightarrow> error + bool" where
  "keep fs slides ONLY SKIP name =
     (case isDirectory fs (join2 slides name) of
        None \<Rightarrow> Inl (FsError (join2 slides name))
      | Some d \<Rightarrow>
          if d \<and> \<not> startsWith name (js ''.'') \<and> \<not> startsWith name (js ''_'') \<and>
             isOnly ONLY name \<and> \<not> shouldSkip SKIP name
          then (case findEntry fs (join2 slides name) of
                  Inl e \<Rightarrow> Inl e
                | Inr r \<Rightarrow> Inr (r \<noteq> None))
          else Inr False)"

definition mk_deck :: "filesys \<Rightarrow> path \<Rightarrow> jsstring \<Rightarrow> error + deck" where
  "mk_deck fs slides name =
     (case findEntry fs (join2 slides name) of
        Inl e \<Rightarrow> Inl e
      | Inr r \<Rightarrow> Inr \<lparr>deck_name = name, deck_path = join2 slides name, deck_entry = r\<rparr>)"

definition discoverDecks :: "world \<Rightarrow> jsstring list \<Rightarrow> jsstring list \<Rightarrow> deck list step" where
  "discoverDecks w ONLY SKIP =
     (if \<not> existsSync (w_fs w) (SLIDES_DIR w) then ([Stderr NoSlidesDir], Exit 1)
      else
        (case readdirSync (w_fs w) (SLIDES_DIR w) of
           None \<Rightarrow> ([], Throw (FsError (SLIDES_DIR w)))
         | Some names \<Rightarrow>
             and_then (lift (filterE (keep (w_fs w) (SLIDES_DIR w) ONLY SKIP) names))
               (\<lambda>dirs. lift (mapE (mk_deck (w_fs w) (SLIDES_DIR w)) dirs))))"

text \<open>
  The specification's candidate: an immediate subdirectory whose name does not start with
  \<open>.\<close> or \<open>_\<close> and whose entry resolves.
\<close>

definition spec_candidate :: "filesys \<Rightarrow> path \<Rightarrow> jsstring \<Rightarrow> bool" where
  "spec_candidate fs slides name =
     (isDirectory fs (join2 slides name) = Some True \<and>
      \<not> startsWith name (js ''.'') \<and> \<not> startsWith name (js ''_'') \<and>
      (case findEntry fs (join2 slides name) of Inr (Some e) \<Rightarrow> True | _ \<Rightarrow> False))"

section \<open>The batch script\<close>

text \<open>
  The environment of the child in \<open>run\<close>:
  \<^verbatim>\<open>{ ...process.env, NODE_OPTIONS: process.env.NODE_OPTIONS || '--max_old_space_size=4096', ...extraEnv }\<close>.
\<close>

definition run_env :: "env \<Rightarrow> env \<Rightarrow> env" where
  "run_env penv extraEnv =
     (penv(js ''NODE_OPTIONS'' \<mapsto>
        (case js_or (penv (js ''NODE_OPTIONS'')) (Some (js ''--max_old_space_size=4096'')) of
           Some v \<Rightarrow> v
         | None \<Rightarrow> []))) ++ extraEnv"

text \<open>
  \<open>run\<close>: the promise resolves when the child closes with code \<open>0\<close> and rejects with an
  error naming the command and the code otherwise. \<open>run_req\<close> is its call of \<open>spawn\<close>.
\<close>

definition run_req :: "world \<Rightarrow> jsstring \<Rightarrow> jsstring list \<Rightarrow> path \<Rightarrow> env \<Rightarrow> spawn_req" where
  "run_req w cmd args cwd extraEnv =
     \<lparr>sp_cmd = cmd, sp_args = args, sp_cwd = cwd, sp_env = run_env (w_env w) extraEnv\<rparr>"

definition run :: "world \<Rightarrow> jsstring \<Rightarrow> jsstring list \<Rightarrow> path \<Rightarrow> env \<Rightarrow> unit step" where
  "run w cmd args cwd extraEnv =
     (let req = run_req w cmd args cwd extraEnv
      in ([Spawn req],
          if w_child w req = Some 0 then Return ()
          else Throw (SpawnFailed cmd args (w_child w req))))"

text \<open>
  \<open>buildDeck\<close>. An entry that is \<open>null\<close> would make \<open>spawn\<close> throw a \<open>TypeError\<close> for
  its argument list.
\<close>

definition buildDeck :: "world \<Rightarrow> deck \<Rightarrow> unit step" where
  "buildDeck w d =
     (let outDir = join2 (DIST_DIR w) (deck_name d);
          base = js ''/'' @ deck_name d @ js ''/''
      in and_then (mkdirSync w outDir) (\<lambda>_.
           case deck_entry d of
             None \<Rightarrow> ([], Throw TypeError)
           | Some entry \<Rightarrow>
               run w (js ''npx'')
                 [js ''-y'', js ''slidev'', js ''build'', entry, js ''--base'', base,
                  js ''--out'', outDir]
                 (deck_path d) Map.empty))"

text \<open>The loop \<open>for (const deck of decks) await buildDeck(deck)\<close>.\<close>

fun build_loop :: "world \<Rightarrow> deck list \<Rightarrow> unit step" where
  "build_loop w [] = ([], Return ())"
| "build_loop w (d # ds) = and_then (buildDeck w d) (\<lambda>_. build_loop w ds)"

text \<open>
  The two regular expressions of \<open>generateIndex\<close>, both with the \<open>m\<close> flag:
  \<^verbatim>\<open>/^\s*title:\s*(.+)\s*$/m\<close> and \<^verbatim>\<open>/^#\s+(.+)$/m\<close>.
\<close>

definition title_rx :: "node list" where
  "title_rx =
     [Bol, Star Space] @ map Char (js ''title:'') @
     [Star Space, GroupOpen, Plus Dot, GroupClose, Star Space, Eol]"

definition h1_rx :: "node list" where
  "h1_rx = [Bol, Char 35, Plus Space, GroupOpen, Plus Dot, GroupClose, Eol]"

text \<open>
  The body of the \<open>try\<close> in \<open>generateIndex\<close>, after the file has been read:
  \<open>fmTitle || h1 || d.name\<close>.
\<close>

definition extract_title :: "jsstring \<Rightarrow> jsstring \<Rightarrow> jsstring" where
  "extract_title raw name =
     (let fmTitle = map_option trim (exec True title_rx raw);
          h1 = map_option trim (exec True h1_rx raw)
      in case js_or (js_or fmTitle h1) (Some name) of Some t \<Rightarrow> t | None \<Rightarrow> [])"

text \<open>
  The title of one deck: the \<open>catch\<close> swallows a failing read (and the \<open>TypeError\<close> of
  \<open>join\<close> on an entry that is \<open>null\<close>), and the title stays the name.
\<close>

definition deck_title :: "filesys \<Rightarrow> deck \<Rightarrow> jsstring" where
  "deck_title fs d =
     (case deck_entry d of
        None \<Rightarrow> deck_name d
      | Some entry \<Rightarrow>
          (case readFileSync fs (join2 (deck_path d) entry) of
             None \<Rightarrow> deck_name d
           | Some raw \<Rightarrow> extract_title raw (deck_name d)))"

definition index_item :: "filesys \<Rightarrow> deck \<Rightarrow> jsstring" where
  \<open>index_item fs d =
     js ''<li><a href="./'' @ deck_name d @ js ''/">'' @ deck_title fs d @ js ''</a></li>''\<close>

definition html_head :: "jsstring list" where
  \<open>html_head =
     [js ''<!doctype html>'',
      js ''<html lang="en">'',
      js ''<meta charset="utf-8">'',
      js ''<meta name="viewport" content="width=device-width, initial-scale=1">'',
      js ''<title>Decks</title>'',
      js ''<style>'',
      js ''  body { font-family: system-ui; margin: 2rem; }'',
      js ''  h1 { font-size: 1.5rem; margin-bottom: 1rem; }'',
      js ''  ul { display: grid; gap: .5rem; padding: 0; list-style: none; }'',
      js ''  a { text-decoration: none; padding: .75rem 1rem; border: 1px solid #ddd; border-radius: .75rem; display: block; }'',
      js ''  a:hover { background: #fafafa; }'',
      js ''</style>'',
      js ''<h1>Decks</h1>'',
      js ''<ul>'']\<close>

definition index_html :: "filesys \<Rightarrow> deck list \<Rightarrow> jsstring" where
  "index_html fs decks =
     join_with [10]
       (html_head @ [join_with [10] (map (index_item fs) decks), js ''</ul>'', js ''</html>''])"

definition generateIndex :: "world \<Rightarrow> deck list \<Rightarrow> unit step" where
  "generateIndex w decks =
     and_then (mkdirSync w (DIST_DIR w)) (\<lambda>_.
       writeFileSync w (join2 (DIST_DIR w) (js ''index.html'')) (index_html (w_fs w) decks))"

text \<open>
  The main function. \<open>ONLY\<close> and \<open>SKIP\<close> are read from the environment when the module
  is loaded.
\<close>

definition ONLY_of :: "world \<Rightarrow> jsstring list" where
  "ONLY_of w = pattern_list (w_env w (js ''SLIDE_DECKS''))"

definition SKIP_of :: "world \<Rightarrow> jsstring list" where
  "SKIP_of w = pattern_list (w_env w (js ''SKIP_DECKS''))"

definition main_body :: "world \<Rightarrow> unit step" where
  "main_body w =
     and_then (discoverDecks w (ONLY_of w) (SKIP_of w)) (\<lambda>decks.
       if length decks = 0 then ([], Exit 0)
       else and_then (mkdirSync w (DIST_DIR w)) (\<lambda>_.
              and_then (build_loop w decks) (\<lambda>_. generateIndex w decks)))"

text \<open>
  The \<open>catch\<close> of the main function prints the message of the error and exits with
  status 1; a run that ends without \<open>process.exit\<close> exits with status 0. The result is
  the trace of the run and its exit status.
\<close>

definition batch :: "world \<Rightarrow> event list \<times> nat" where
  "batch w =
     (case main_body w of
        (ev, Return _) \<Rightarrow> (ev, 0)
      | (ev, Throw e) \<Rightarrow> (ev @ [Stderr (BuildFailed e)], 1)
      | (ev, Exit n) \<Rightarrow> (ev, n))"

section \<open>The dev script\<close>

text \<open>
  \<open>process.exit(code)\<close> of Node.js: a code that is \<open>null\<close> or \<open>undefined\<close> leaves
  \<open>process.exitCode\<close> as it is, and the process exits with the default status 0.
\<close>

definition process_exit :: "nat option \<Rightarrow> nat" where
  "process_exit code = (case code of None \<Rightarrow> 0 | Some n \<Rightarrow> n)"

text \<open>
  The dev script, from the command argument \<open>process.argv[2]\<close> (\<open>None\<close> when it is
  absent). An exception that nothing catches ends the process with status 1. The child
  closes with the code of the world, and the listener of \<open>close\<close> hands it to
  \<open>process.exit\<close>. \<open>dev_req\<close> is the call of \<open>spawn\<close>.
\<close>

definition dev_req :: "world \<Rightarrow> path \<Rightarrow> jsstring \<Rightarrow> spawn_req" where
  "dev_req w deckPath entry =
     \<lparr>sp_cmd = js ''npx'', sp_args = [js ''-y'', js ''slidev'', join2 deckPath entry],
      sp_cwd = w_root w, sp_env = w_env w\<rparr>"

definition dev :: "world \<Rightarrow> jsstring option \<Rightarrow> event list \<times> nat" where
  "dev w argv2 =
     (case js_or argv2 (w_env w (js ''DECK'')) of
        None \<Rightarrow> ([Stderr NoDeckName], 1)
      | Some deckName \<Rightarrow>
          if deckName = [] then ([Stderr NoDeckName], 1)
          else
            (let deckPath = join2 (SLIDES_DIR w) deckName in
             if \<not> existsSync (w_fs w) deckPath then ([Stderr (DeckNotFound deckPath)], 1)
             else
               (case dev_entry (w_fs w) deckPath of
                  Inl e \<Rightarrow> ([Stderr (Uncaught e)], 1)
                | Inr None \<Rightarrow> ([Stderr (NoEntry deckPath)], 1)
                | Inr (Some entry) \<Rightarrow>
                    (let req = dev_req w deckPath entry
                     in ([Spawn req], process_exit (w_child w req))))))"

section \<open>The title rule as the specification words it\<close>

text \<open>
  The specification's reading of the title rule, to be compared with \<open>extract_title\<close>:
  the document is read line by line; a title line is \<open>title: <value>\<close> with a value on the
  line, a level-1 heading is \<open># <value>\<close>; the title is the value of the first title
  line, else the value of the first heading, else the name of the directory.
\<close>

fun split_lines :: "jsstring \<Rightarrow> jsstring list" where
  "split_lines [] = [[]]"
| "split_lines (c # cs) =
     (if is_line_terminator c then [] # split_lines cs
      else (case split_lines cs of
              [] \<Rightarrow> [[c]]
            | l # ls \<Rightarrow> (c # l) # ls))"

definition spec_title_line :: "jsstring \<Rightarrow> jsstring option" where
  "spec_title_line l =
     (let t = dropWhile is_white_space l in
      if startsWith t (js ''title:'') \<and> trim (drop 6 t) \<noteq> [] then Some (trim (drop 6 t))
      else None)"

definition spec_h1_line :: "jsstring \<Rightarrow> jsstring option" where
  "spec_h1_line l =
     (case l of
        [] \<Rightarrow> None
      | c # r \<Rightarrow>
          if c = 35 \<and> (case r of [] \<Rightarrow> False | x # _ \<Rightarrow> is_white_space x) \<and> trim r \<noteq> []
          then Some (trim r) else None)"

fun first_some :: "('a \<Rightarrow> 'b option) \<Rightarrow> 'a list \<Rightarrow> 'b option" where
  "first_some f [] = None"
| "first_some f (x # xs) = (case f x of Some y \<Rightarrow> Some y | None \<Rightarrow> first_some f xs)"

definition spec_title :: "jsstring \<Rightarrow> jsstring \<Rightarrow> jsstring" where
  "spec_title raw name =
     (case first_some spec_title_line (split_lines raw) of
        Some t \<Rightarrow> t
      | None \<Rightarrow>
          (case first_some spec_h1_line (split_lines raw) of
             Some t \<Rightarrow> t
           | None \<Rightarrow> name))"

section \<open>The memory-limit hint as the specification words it\<close>

text \<open>
  \<open>str_includes s p\<close>: the string \<open>s\<close> holds \<open>p\<close> as a substring.
\<close>

fun str_includes :: "jsstring \<Rightarrow> jsstring \<Rightarrow> bool" where
  "str_includes [] p = (p = [])"
| "str_includes (x # xs) p = (startsWith (x # xs) p \<or> str_includes xs p)"

text \<open>
  The specification's memory-limit hint, to be compared with what \<open>run_env\<close> hands to the
  child: a value of \<open>NODE_OPTIONS\<close> that holds a heap-size setting, in either spelling of
  the option.
\<close>

definition spec_memory_hint :: "jsstring \<Rightarrow> bool" where
  "spec_memory_hint v =
     (str_includes v (js ''--max_old_space_size='') \<or> str_includes v (js ''--max-old-space-size=''))"

section \<open>A working tree for the examples\<close>

text \<open>
  The directory \<open>/w/slides\<close> with the decks \<open>talk1\<close> (two canonical entries),
  \<open>_drafts\<close>, \<open>old-1\<close> (no canonical entry), \<open>empty\<close> (no Markdown file) and
  \<open>talk2\<close>, and the file \<open>notes.txt\<close>.
\<close>

definition demo_dirs :: "(path \<times> jsstring list) list" where
  "demo_dirs =
     [(js ''/w'', [js ''slides'']),
      (js ''/w/slides'',
         [js ''talk1'', js ''_drafts'', js ''old-1'', js ''notes.txt'', js ''empty'', js ''talk2'']),
      (js ''/w/slides/talk1'', [js ''index.md'', js ''slides.md'']),
      (js ''/w/slides/_drafts'', [js ''deck.md'']),
      (js ''/w/slides/old-1'', [js ''a.txt'', js ''b.md'', js ''c.md'']),
      (js ''/w/slides/empty'', [js ''readme.txt'']),
      (js ''/w/slides/talk2'', [js ''slides.md''])]"

definition demo_files :: "(path \<times> jsstring) list" where
  "demo_files =
     [(js ''/w/slides/notes.txt'', js ''notes''),
      (js ''/w/slides/talk1/index.md'', js ''# Index''),
      (js ''/w/slides/talk1/slides.md'', js ''title: My Talk'' @ [10] @ js ''# Intro''),
      (js ''/w/slides/_drafts/deck.md'', js ''# Draft''),
      (js ''/w/slides/old-1/a.txt'', js ''a''),
      (js ''/w/slides/old-1/b.md'', js ''# Old''),
      (js ''/w/slides/old-1/c.md'', js ''# C''),
      (js ''/w/slides/empty/readme.txt'', js ''nothing''),
      (js ''/w/slides/talk2/slides.md'', js ''---'' @ [10] @ js ''title:'' @ [10] @ js ''---'' @ [10] @ js ''# Intro'' @ [10])]"

definition demo_fs :: filesys where
  "demo_fs =
     \<lparr>existsSync = (\<lambda>p. p \<in> set (map fst demo_dirs) \<or> p \<in> set (map fst demo_files)),
      isDirectory = (\<lambda>p. if p \<in> set (map fst demo_dirs) then Some True
                          else if p \<in> set (map fst demo_files) then Some False else None),
      readdirSync = map_of demo_dirs,
      readFileSync = map_of demo_files\<rparr>"

text \<open>
  The world of the examples, from the environment and the codes of the children; every
  directory can be created and every file written.
\<close>

definition demo_world :: "env \<Rightarrow> (spawn_req \<Rightarrow> nat option) \<Rightarrow> world" where
  "demo_world penv child =
     \<lparr>w_root = js ''/w'', w_fs = demo_fs, w_env = penv, w_child = child,
      w_mkdir_ok = (\<lambda>_. True), w_write_ok = (\<lambda>_. True)\<rparr>"

text \<open>The child of the deck \<open>old-1\<close> closes with code 1, every other child with code 0.\<close>

definition fail_old :: "spawn_req \<Rightarrow> nat option" where
  "fail_old q = (if sp_cwd q = js ''/w/slides/old-1'' then Some 1 else Some 0)"

text \<open>A working directory without the directory \<open>slides\<close>.\<close>

definition bare_world :: world where
  "bare_world =
     \<lparr>w_root = js ''/w'',
      w_fs = \<lparr>existsSync = (\<lambda>p. p = js ''/w''),
              isDirectory = (\<lambda>p. if p = js ''/w'' then Some True else None),
              readdirSync = (\<lambda>p. if p = js ''/w'' then Some [] else None),
              readFileSync = (\<lambda>_. None)\<rparr>,
      w_env = Map.empty, w_child = (\<lambda>_. Some 0),
      w_mkdir_ok = (\<lambda>_. True), w_write_ok = (\<lambda>_. True)\<rparr>"

text \<open>
  A working tree with the decks \<open>c\<close> and \<open>lf_name\<close>, a directory whose name holds a
  line feed, each with the entry \<open>slides.md\<close>.
\<close>

definition lf_name :: jsstring where
  "lf_name = js ''a'' @ [10] @ js ''b''"

definition lf_dirs :: "(path \<times> jsstring list) list" where
  "lf_dirs =
     [(js ''/w'', [js ''slides'']),
      (js ''/w/slides'', [lf_name, js ''c'']),
      (js ''/w/slides/'' @ lf_name, [js ''slides.md'']),
      (js ''/w/slides/c'', [js ''slides.md''])]"

definition lf_files :: "(path \<times> jsstring) list" where
  "lf_files =
     [(js ''/w/slides/'' @ lf_name @ js ''/slides.md'', js ''# A''),
      (js ''/w/slides/c/slides.md'', js ''# C'')]"

definition lf_world :: "env \<Rightarrow> world" where
  "lf_world penv =
     \<lparr>w_root = js ''/w'',
      w_fs = \<lparr>existsSync = (\<lambda>p. p \<in> set (map fst lf_dirs) \<or> p \<in> set (map fst lf_files)),
              isDirectory = (\<lambda>p. if p \<in> set (map fst lf_dirs) then Some True
                                  else if p \<in> set (map fst lf_files) then Some False else None),
              readdirSync = map_of lf_dirs,
              readFileSync = map_of lf_files\<rparr>,
      w_env = penv, w_child = (\<lambda>_. Some 0),
      w_mkdir_ok = (\<lambda>_. True), w_write_ok = (\<lambda>_. True)\<rparr>"

text \<open>
  A document whose lines carry their values: every line that starts like a title line
  (\<open>title:\<close> after white space) or like a heading (\<open>#\<close>, then white space or the end of
  the line) has a value on the line.
\<close>

definition title_like :: "jsstring \<Rightarrow> bool" where
  "title_like l = startsWith (dropWhile is_white_space l) (js ''title:'')"

definition heading_like :: "jsstring \<Rightarrow> bool" where
  "heading_like l =
     (case l of
        [] \<Rightarrow> False
      | c # r \<Rightarrow> c = 35 \<and> (case r of [] \<Rightarrow> True | x # _ \<Rightarrow> is_white_space x))"

definition valued_line :: "jsstring \<Rightarrow> bool" where
  "valued_line l =
     ((if title_like l then spec_title_line l \<noteq> None else True) \<and>
      (if heading_like l then spec_h1_line l \<noteq> None else True))"

definition valued_lines :: "jsstring \<Rightarrow> bool" where
  "valued_lines raw = list_all valued_line (split_lines raw)"

text \<open>Whether \<open>^\<close> holds with the \<open>m\<close> flag: at the start, or after a line terminator.\<close>

definition at_bol :: "jschar option \<Rightarrow> bool" where
  "at_bol prev = (case prev of None \<Rightarrow> True | Some p \<Rightarrow> is_line_terminator p)"


section \<open>Properties of strings\<close>

text \<open>Literals are compared as literals.\<close>

lemma js_append: "js a @ js b = js (a @ b)"
  by (simp add: js_def)

lemma js_eq_iff: "(js a = js b) = (a = b)"
  by (simp add: js_def inj_of_char)

lemma js_Nil_iff: "(js a = []) = (a = [])"
  by (simp add: js_def)

lemma length_js: "length (js a) = length a"
  by (simp add: js_def)

lemma drop_js: "drop n (js a) = js (drop n a)"
  by (simp add: js_def drop_map)

lemma take_js: "take n (js a) = js (take n a)"
  by (simp add: js_def take_map)

lemmas js_simps = js_append js_eq_iff js_Nil_iff length_js drop_js take_js

section \<open>Properties of the pattern matcher\<close>

lemma split_on_not_Nil: "split_on sep s \<noteq> []"
  by (induction s) (auto split: list.splits)

lemma syntax_chars:
  "is_syntax_char c_bslash" "is_syntax_char c_dot" "is_syntax_char c_caret"
  "is_syntax_char c_dollar" "is_syntax_char c_star"
  by (simp_all add: is_syntax_char_def js_def)

text \<open>The escaped text of a segment is read back as the characters of the segment.\<close>

lemma parse_rx_escape:
  "parse_rx (escape s @ t) = map_option ((@) (map Char s)) (parse_rx t)"
proof (induction s)
  case Nil
  show ?case by (simp add: option.map_ident)
next
  case (Cons c s)
  show ?case
  proof (cases "is_syntax_char c")
    case True
    then show ?thesis using Cons by (simp add: option.map_comp comp_def)
  next
    case False
    then have "c \<noteq> c_bslash" "c \<noteq> c_dot" "c \<noteq> c_caret" "c \<noteq> c_dollar"
      using syntax_chars by auto
    with False show ?thesis using Cons by (simp add: option.map_comp comp_def)
  qed
qed

lemma parse_rx_glob:
  "parse_rx (join_with [c_dot, c_star] (map escape segs) @ t)
     = map_option ((@) (glob_nodes segs)) (parse_rx t)"
proof (induction segs rule: glob_nodes.induct)
  case 1
  show ?case by (simp add: option.map_ident)
next
  case (2 s)
  show ?case by (simp add: parse_rx_escape)
next
  case (3 s t' ss)
  have "parse_rx (c_dot # c_star # u) = map_option ((#) (Star Dot)) (parse_rx u)" for u
    by simp
  with 3 show ?case
    by (simp add: parse_rx_escape option.map_comp comp_def del: parse_rx.simps)
qed

text \<open>\<open>new RegExp\<close> accepts every source that \<open>matches\<close> builds.\<close>

lemma parse_rx_source:
  "parse_rx (rx_source pattern) = Some (Bol # glob_nodes (split_on c_star pattern) @ [Eol])"
proof -
  have 1: "parse_rx [c_dollar] = Some [Eol]" by simp
  have 2: "parse_rx (c_caret # u) = map_option ((#) Bol) (parse_rx u)" for u by simp
  show ?thesis
    unfolding rx_source_def by (simp add: 1 2 parse_rx_glob del: parse_rx.simps)
qed

lemma rx_run_chars:
  "rx_run ml (map Char s @ k) prev rest cap =
     (if take (length s) rest = s
      then rx_run ml k (last_or prev s) (drop (length s) rest) (foldl push cap s)
      else None)"
proof (induction s arbitrary: prev rest cap)
  case Nil
  show ?case by (simp add: last_or_def)
next
  case (Cons c s)
  show ?case
  proof (cases rest)
    case Nil
    then show ?thesis by simp
  next
    case (Cons x xs)
    then show ?thesis using Cons.IH [of "Some x" xs "push cap x"]
      by (auto simp: last_or_def)
  qed
qed

text \<open>
  A greedy star succeeds exactly when some run of characters of the class can be split
  off so that the continuation succeeds on the remainder.
\<close>

lemma rx_run_star:
  "(rx_run ml (Star cl # k) prev rest cap \<noteq> None) =
     (\<exists>g r. rest = g @ r \<and> (\<forall>x\<in>set g. in_cls cl x) \<and>
        rx_run ml k (last_or prev g) r (foldl push cap g) \<noteq> None)"
proof (induction rest arbitrary: prev cap)
  case Nil
  show ?case by (simp add: last_or_def)
next
  case (Cons x xs)
  show ?case (is "?L = ?R")
  proof
    assume L: ?L
    show ?R
    proof (cases "in_cls cl x \<and> rx_run ml (Star cl # k) (Some x) xs (push cap x) \<noteq> None")
      case True
      then obtain g r where gr: "xs = g @ r" "\<forall>y\<in>set g. in_cls cl y"
        "rx_run ml k (last_or (Some x) g) r (foldl push (push cap x) g) \<noteq> None"
        using Cons.IH [of "Some x" "push cap x"] by blast
      have "last_or (Some x) g = last_or prev (x # g)" by (simp add: last_or_def)
      with gr True show ?thesis
        by (intro exI [of _ "x # g"] exI [of _ r]) simp
    next
      case False
      with L have "rx_run ml k prev (x # xs) cap \<noteq> None"
        by (auto split: if_splits option.splits)
      then show ?thesis
        by (intro exI [of _ "[]"] exI [of _ "x # xs"]) (simp add: last_or_def)
    qed
  next
    assume ?R
    then obtain g r where gr: "x # xs = g @ r" "\<forall>y\<in>set g. in_cls cl y"
      "rx_run ml k (last_or prev g) r (foldl push cap g) \<noteq> None" by blast
    show ?L
    proof (cases g)
      case Nil
      with gr show ?thesis by (auto simp: last_or_def split: option.splits)
    next
      case (Cons y g')
      with gr have xy: "y = x" "xs = g' @ r" "in_cls cl x" "\<forall>y\<in>set g'. in_cls cl y" by auto
      have "last_or prev g = last_or (Some x) g'" using Cons xy by (simp add: last_or_def)
      with gr Cons xy have "rx_run ml (Star cl # k) (Some x) xs (push cap x) \<noteq> None"
        using Cons.IH [of "Some x" "push cap x"] by auto
      with xy show ?thesis by (auto split: option.splits)
    qed
  qed
qed

lemma take_drop_whole: "(take (length s) name = s \<and> drop (length s) name = []) = (name = s)"
proof
  assume "take (length s) name = s \<and> drop (length s) name = []"
  then show "name = s" using append_take_drop_id [of "length s" name] by simp
qed simp

lemma rx_run_glob:
  "segs \<noteq> [] \<Longrightarrow>
     (rx_run False (glob_nodes segs @ [Eol]) prev name cap \<noteq> None) = glob_lang segs name"
proof (induction segs arbitrary: prev name cap rule: glob_nodes.induct)
  case 1
  then show ?case by simp
next
  case (2 s)
  show ?case using take_drop_whole [of s name]
    by (auto simp: rx_run_chars)
next
  case (3 s t ss)
  show ?case (is "?L = ?R")
  proof
    assume ?L
    then have pre: "take (length s) name = s"
      and st: "rx_run False (Star Dot # glob_nodes (t # ss) @ [Eol]) (last_or prev s)
                 (drop (length s) name) (foldl push cap s) \<noteq> None"
      by (auto simp: rx_run_chars split: if_splits)
    from st obtain g r where gr: "drop (length s) name = g @ r" "\<forall>x\<in>set g. in_cls Dot x"
      "rx_run False (glob_nodes (t # ss) @ [Eol]) (last_or (last_or prev s) g) r
         (foldl push (foldl push cap s) g) \<noteq> None"
      unfolding rx_run_star by blast
    have name: "name = s @ g @ r" using pre gr(1) by (metis append_take_drop_id)
    from gr(3) have "glob_lang (t # ss) r" using "3.IH" by blast
    with name gr(2) show ?R by (auto simp: list_all_iff)
  next
    assume ?R
    then obtain g r where gr: "name = s @ g @ r" "\<forall>x\<in>set g. in_cls Dot x"
      "glob_lang (t # ss) r" by (auto simp: list_all_iff)
    then have "rx_run False (glob_nodes (t # ss) @ [Eol]) (last_or (last_or prev s) g) r
         (foldl push (foldl push cap s) g) \<noteq> None"
      using "3.IH" by blast
    with gr(2) have "rx_run False (Star Dot # glob_nodes (t # ss) @ [Eol]) (last_or prev s)
                 (g @ r) (foldl push cap s) \<noteq> None"
      unfolding rx_run_star by blast
    with gr(1) show ?L by (simp add: rx_run_chars)
  qed
qed

text \<open>On a name without line terminator the two readings of a pattern agree.\<close>

lemma glob_lang_spec:
  "\<forall>x\<in>set name. \<not> is_line_terminator x \<Longrightarrow> glob_lang segs name = spec_decomposes segs name"
proof (induction segs arbitrary: name rule: glob_nodes.induct)
  case 1
  show ?case by simp
next
  case (2 s)
  show ?case by simp
next
  case (3 s t ss)
  show ?case (is "?L = ?R")
  proof
    assume ?L
    then obtain g r where gr: "name = s @ g @ r" "glob_lang (t # ss) r" by auto
    with "3.prems" have "\<forall>x\<in>set r. \<not> is_line_terminator x" by auto
    with gr(2) "3.IH" have "spec_decomposes (t # ss) r" by blast
    with gr(1) show ?R by auto
  next
    assume ?R
    then obtain g r where gr: "name = s @ g @ r" "spec_decomposes (t # ss) r" by auto
    with "3.prems" have nl: "\<forall>x\<in>set r. \<not> is_line_terminator x"
      "\<forall>x\<in>set g. \<not> is_line_terminator x" by auto
    with gr(2) "3.IH" have "glob_lang (t # ss) r" by blast
    with gr(1) nl(2) show ?L by (auto simp: list_all_iff)
  qed
qed

text \<open>Without the \<open>m\<close> flag, \<open>^\<close> holds at the first start position only.\<close>

lemma exec_from_Bol_later: "exec_from False (Bol # k) (Some p) s = None"
  by (induction s arbitrary: p) auto

lemma rx_test_Bol: "rx_test (Bol # k) name = (rx_run False k None name (False, []) \<noteq> None)"
  by (cases name) (auto simp: rx_test_def exec_def exec_from_Bol_later split: option.splits)

text \<open>What a pattern with \<open>*\<close> matches, for every name.\<close>

lemma matches_star_exact:
  assumes "c_star \<in> set pattern"
  shows "matches name pattern = glob_lang (split_on c_star pattern) name"
proof -
  from assms have "pattern \<noteq> []" by auto
  moreover have "(rx_run False (glob_nodes (split_on c_star pattern) @ [Eol]) None name (False, [])
      \<noteq> None) = glob_lang (split_on c_star pattern) name"
    using split_on_not_Nil by (rule rx_run_glob)
  ultimately show ?thesis using assms
    by (simp add: matches_def parse_rx_source rx_test_Bol del: parse_rx.simps rx_run.simps)
qed

lemma matches_star:
  assumes "c_star \<in> set pattern" "\<forall>x\<in>set name. \<not> is_line_terminator x"
  shows "matches name pattern = spec_decomposes (split_on c_star pattern) name"
  using assms by (simp add: matches_star_exact glob_lang_spec)

lemmas eval_matches =
  js_def matches_def rx_source_def is_syntax_char_def rx_test_def exec_def
  is_line_terminator_def

text \<open>
  For every pattern that is not empty and every name without a line terminator: a pattern
  with a \<open>*\<close> matches the name exactly when the name is the literal segments of the
  pattern in order, with any run of characters, possibly empty, for each \<open>*\<close> (the
  segments are compared character by character, so a character that is special in a
  regular expression stands for itself). The match is anchored at both ends.
\<close>

lemma matches_decomposes:
  assumes "c_star \<in> set pattern" and "\<forall>c\<in>set name. \<not> is_line_terminator c"
  shows "matches name pattern = spec_decomposes (split_on c_star pattern) name"
  using assms by (rule matches_star)

text \<open>
  A pattern without \<open>*\<close> that is not empty matches the identical name only, whatever the
  name holds.
\<close>

lemma matches_exact:
  "pattern \<noteq> [] \<Longrightarrow> c_star \<notin> set pattern \<Longrightarrow> matches name pattern = (name = pattern)"
  by (simp add: matches_def)

text \<open>
  The empty pattern matches every name, by the first line of \<open>matches\<close>; the lists
  \<open>ONLY\<close> and \<open>SKIP\<close> never hold it.
\<close>

lemma matches_empty_pattern: "matches name []"
  by (simp add: matches_def)

lemma pattern_list_nonempty: "[] \<notin> set (pattern_list v)"
  by (simp add: pattern_list_def)

text \<open>
  The examples of the specification: \<open>draft-*\<close> against \<open>draft-intro\<close>, \<open>draft-\<close>
  and \<open>my-draft-intro\<close>; and \<open>a.*\<close>, where the dot stands for itself.
\<close>

lemma matches_examples:
  "matches (js ''draft-intro'') (js ''draft-*'')"
  "matches (js ''draft-'') (js ''draft-*'')"
  "\<not> matches (js ''my-draft-intro'') (js ''draft-*'')"
  "\<not> matches (js ''abc'') (js ''a.*'')"
  "matches (js ''a.bc'') (js ''a.*'')"
  by (simp_all add: eval_matches)

text \<open>The pattern \<open>*\<close> matches every name without a line terminator.\<close>

lemma matches_star_every_name:
  "\<forall>c\<in>set name. \<not> is_line_terminator c \<Longrightarrow> matches name (js ''*'')"
  by (simp add: matches_star js_def)

lemma lf_matches:
  "\<not> matches (js ''a'' @ [10] @ js ''b'') (js ''*'')" "matches (js ''c'') (js ''*'')"
  by (simp_all add: eval_matches)

lemmas lf_simps =
  lf_world_def lf_dirs_def lf_files_def lf_name_def SLIDES_DIR_def DIST_DIR_def join2_def
  js_simps

lemmas lf_discover =
  discoverDecks_def keep_def mk_deck_def lift_def and_then_def isOnly_def shouldSkip_def
  startsWith_def findEntry_def candidates_def endsWith_def

lemma lf_ONLY: "ONLY_of (lf_world [js ''SLIDE_DECKS'' \<mapsto> js ''*'']) = [js ''*'']"
  by (simp add: ONLY_of_def lf_world_def pattern_list_def trim_def js_def is_white_space_def
      is_line_terminator_def)

lemma lf_SKIP: "SKIP_of (lf_world [js ''SLIDE_DECKS'' \<mapsto> js ''*'']) = []"
  by (simp add: SKIP_of_def lf_world_def pattern_list_def trim_def js_simps)

text \<open>
  Claim C1 fails on the code. The pattern \<open>*\<close> is compiled to \<open>^.*$\<close>, and \<open>.\<close> does
  not match a line terminator: the directory name \<open>a\<close>, line feed, \<open>b\<close> is the two
  segments of \<open>*\<close> with a run of characters between them, and \<open>matches\<close> rejects it.
  In the working tree \<open>lf_world\<close> the batch script discovers the deck of that name when
  nothing is selected, and leaves it out when \<open>SLIDE_DECKS\<close> is \<open>*\<close>.
\<close>

theorem star_stops_at_line_feed:
  "lf_name = js ''a'' @ [10] @ js ''b'' \<and>
   spec_decomposes (split_on c_star (js ''*'')) lf_name \<and>
   \<not> matches lf_name (js ''*'') \<and>
   discoverDecks (lf_world Map.empty) [] [] =
     ([], Return
        [\<lparr>deck_name = lf_name, deck_path = js ''/w/slides/'' @ lf_name,
           deck_entry = Some (js ''slides.md'')\<rparr>,
         \<lparr>deck_name = js ''c'', deck_path = js ''/w/slides/c'',
           deck_entry = Some (js ''slides.md'')\<rparr>]) \<and>
   ONLY_of (lf_world [js ''SLIDE_DECKS'' \<mapsto> js ''*'']) = [js ''*''] \<and>
   discoverDecks (lf_world [js ''SLIDE_DECKS'' \<mapsto> js ''*''])
       (ONLY_of (lf_world [js ''SLIDE_DECKS'' \<mapsto> js ''*'']))
       (SKIP_of (lf_world [js ''SLIDE_DECKS'' \<mapsto> js ''*''])) =
     ([], Return
        [\<lparr>deck_name = js ''c'', deck_path = js ''/w/slides/c'',
           deck_entry = Some (js ''slides.md'')\<rparr>])"
proof -
  have 1: "spec_decomposes (split_on c_star (js ''*'')) lf_name"
    by (simp add: js_def)
  have 2: "\<not> matches lf_name (js ''*'')"
    unfolding lf_name_def by (rule lf_matches)
  have 3: "discoverDecks (lf_world Map.empty) [] [] =
     ([], Return
        [\<lparr>deck_name = lf_name, deck_path = js ''/w/slides/'' @ lf_name,
           deck_entry = Some (js ''slides.md'')\<rparr>,
         \<lparr>deck_name = js ''c'', deck_path = js ''/w/slides/c'',
           deck_entry = Some (js ''slides.md'')\<rparr>])"
    by (simp add: lf_discover lf_simps js_def)
  have 4: "discoverDecks (lf_world [js ''SLIDE_DECKS'' \<mapsto> js ''*'']) [js ''*''] [] =
     ([], Return
        [\<lparr>deck_name = js ''c'', deck_path = js ''/w/slides/c'',
           deck_entry = Some (js ''slides.md'')\<rparr>])"
    using lf_matches by (simp add: lf_discover lf_simps js_def)
  from 1 2 3 4 show ?thesis by (simp add: lf_ONLY lf_SKIP lf_name_def)
qed

section \<open>Properties of entry resolution and discovery\<close>

lemma first_existing_find:
  "first_existing fs p cs = find (\<lambda>c. existsSync fs (join2 p c)) cs"
  by (induction cs) auto

lemma filter_head_find:
  "(case filter P xs of [] \<Rightarrow> Inr None | x # _ \<Rightarrow> Inr (Some x)) = Inr (find P xs)"
  by (induction xs) auto

lemma findEntry_find:
  "findEntry fs p =
     (case find (\<lambda>c. existsSync fs (join2 p c)) candidates of
        Some c \<Rightarrow> Inr (Some c)
      | None \<Rightarrow>
          (case readdirSync fs p of
             None \<Rightarrow> Inl (FsError p)
           | Some files \<Rightarrow> Inr (find (\<lambda>f. endsWith f (js ''.md'')) files)))"
  by (simp add: findEntry_def first_existing_find filter_head_find split: option.splits)

lemma candidates_nonempty: "c \<in> set candidates \<Longrightarrow> c \<noteq> []"
  by (auto simp: candidates_def js_def)

lemma endsWith_md_nonempty: "endsWith f (js ''.md'') \<Longrightarrow> f \<noteq> []"
  by (auto simp: endsWith_def js_def)

lemma find_Some_D: "find P xs = Some x \<Longrightarrow> x \<in> set xs \<and> P x"
  by (induction xs) (auto split: if_splits)

lemma js_or_find: "(\<And>x. x \<in> set xs \<Longrightarrow> P x \<Longrightarrow> x \<noteq> []) \<Longrightarrow> js_or (find P xs) None = find P xs"
  using find_Some_D [of P xs] by (auto simp: js_or_def split: option.splits)

lemma dev_entry_findEntry: "dev_entry fs p = findEntry fs p"
proof -
  have 1: "js_or (find (\<lambda>f. existsSync fs (join2 p f)) candidates) None
         = find (\<lambda>f. existsSync fs (join2 p f)) candidates"
    by (rule js_or_find) (rule candidates_nonempty)
  have 2: "js_or (find (\<lambda>f. endsWith f (js ''.md'')) files) None
         = find (\<lambda>f. endsWith f (js ''.md'')) files" for files
    by (rule js_or_find) (rule endsWith_md_nonempty)
  show ?thesis
    unfolding dev_entry_def findEntry_find 1 by (simp add: 2 split: option.splits)
qed

lemma findEntry_priority:
  "findEntry fs p =
     (if existsSync fs (join2 p (js ''slides.md'')) then Inr (Some (js ''slides.md''))
      else if existsSync fs (join2 p (js ''index.md'')) then Inr (Some (js ''index.md''))
      else if existsSync fs (join2 p (js ''deck.md'')) then Inr (Some (js ''deck.md''))
      else if existsSync fs (join2 p (js ''presentation.md'')) then Inr (Some (js ''presentation.md''))
      else (case readdirSync fs p of
              None \<Rightarrow> Inl (FsError p)
            | Some files \<Rightarrow> Inr (find (\<lambda>f. endsWith f (js ''.md'')) files)))"
  by (simp add: findEntry_find candidates_def)

lemma filterE_Inr: "filterE f xs = Inr ys \<Longrightarrow> ys = filter (\<lambda>x. f x = Inr True) xs"
  by (induction xs arbitrary: ys) (auto split: sum.splits if_splits)

lemma mapE_mk_deck:
  "mapE (mk_deck fs slides) ns = Inr ds \<Longrightarrow>
     map deck_name ds = ns \<and>
     (\<forall>d\<in>set ds. deck_path d = join2 slides (deck_name d) \<and>
        findEntry fs (join2 slides (deck_name d)) = Inr (deck_entry d))"
  by (induction ns arbitrary: ds) (auto simp: mk_deck_def split: sum.splits)

lemma keep_True:
  "(keep fs slides ONLY SKIP n = Inr True) =
     (spec_candidate fs slides n \<and> isOnly ONLY n \<and> \<not> shouldSkip SKIP n)"
  by (auto simp: keep_def spec_candidate_def split: option.splits sum.splits)

lemma discoverDecks_Return:
  assumes "discoverDecks w ONLY SKIP = (ev, Return ds)"
  shows "ev = [] \<and> existsSync (w_fs w) (SLIDES_DIR w) \<and>
         (\<exists>names. readdirSync (w_fs w) (SLIDES_DIR w) = Some names \<and>
            map deck_name ds = filter (\<lambda>n. spec_candidate (w_fs w) (SLIDES_DIR w) n \<and>
                                       isOnly ONLY n \<and> \<not> shouldSkip SKIP n) names) \<and>
         (\<forall>d\<in>set ds. deck_path d = join2 (SLIDES_DIR w) (deck_name d) \<and>
            findEntry (w_fs w) (join2 (SLIDES_DIR w) (deck_name d)) = Inr (deck_entry d))"
proof -
  from assms have ex: "existsSync (w_fs w) (SLIDES_DIR w)"
    by (auto simp: discoverDecks_def split: if_splits)
  from assms ex obtain names where names: "readdirSync (w_fs w) (SLIDES_DIR w) = Some names"
    by (auto simp: discoverDecks_def split: option.splits)
  from assms ex names obtain dirs where
    dirs: "filterE (keep (w_fs w) (SLIDES_DIR w) ONLY SKIP) names = Inr dirs"
    and ds: "mapE (mk_deck (w_fs w) (SLIDES_DIR w)) dirs = Inr ds" and ev: "ev = []"
    by (auto simp: discoverDecks_def and_then_def lift_def split: sum.splits)
  from filterE_Inr [OF dirs] mapE_mk_deck [OF ds] ex names ev show ?thesis
    by (simp add: keep_True)
qed

lemma discoverDecks_events:
  "discoverDecks w ONLY SKIP = (ev, r) \<Longrightarrow> spawns ev = [] \<and> writes ev = []"
  by (auto simp: discoverDecks_def and_then_def lift_def spawns_def writes_def
      split: if_splits option.splits sum.splits)


text \<open>
  Discovery returns whenever the file system calls do not throw: \<open>slides\<close> can be
  listed, every name in it can be examined, and every directory in it can be listed.
\<close>

lemma filterE_returns:
  "\<forall>x\<in>set xs. \<exists>b. f x = Inr b \<Longrightarrow> \<exists>ys. filterE f xs = Inr ys"
  by (induction xs) auto

lemma mapE_returns:
  "\<forall>x\<in>set xs. \<exists>y. f x = Inr y \<Longrightarrow> \<exists>ys. mapE f xs = Inr ys"
  by (induction xs) auto

lemma findEntry_returns:
  "readdirSync fs p \<noteq> None \<Longrightarrow> \<exists>r. findEntry fs p = Inr r"
  by (auto simp: findEntry_find split: option.splits)

lemma discoverDecks_returns:
  assumes "existsSync (w_fs w) (SLIDES_DIR w)"
    and "readdirSync (w_fs w) (SLIDES_DIR w) = Some names"
    and "\<forall>n\<in>set names. isDirectory (w_fs w) (join2 (SLIDES_DIR w) n) \<noteq> None"
    and "\<forall>n\<in>set names. isDirectory (w_fs w) (join2 (SLIDES_DIR w) n) = Some True \<longrightarrow>
           readdirSync (w_fs w) (join2 (SLIDES_DIR w) n) \<noteq> None"
  shows "\<exists>ds. discoverDecks w ONLY SKIP = ([], Return ds)"
proof -
  have "\<exists>b. keep (w_fs w) (SLIDES_DIR w) ONLY SKIP n = Inr b" if "n \<in> set names" for n
  proof (cases "isDirectory (w_fs w) (join2 (SLIDES_DIR w) n)")
    case None
    with assms(3) that show ?thesis by auto
  next
    case (Some d)
    show ?thesis
    proof (cases d)
      case True
      with Some assms(4) that have "readdirSync (w_fs w) (join2 (SLIDES_DIR w) n) \<noteq> None"
        by simp
      then obtain r where "findEntry (w_fs w) (join2 (SLIDES_DIR w) n) = Inr r"
        using findEntry_returns by blast
      with Some show ?thesis by (auto simp: keep_def)
    next
      case False
      with Some show ?thesis by (auto simp: keep_def)
    qed
  qed
  then obtain dirs where dirs: "filterE (keep (w_fs w) (SLIDES_DIR w) ONLY SKIP) names = Inr dirs"
    using filterE_returns [of names "keep (w_fs w) (SLIDES_DIR w) ONLY SKIP"] by blast
  have "\<exists>y. mk_deck (w_fs w) (SLIDES_DIR w) n = Inr y" if "n \<in> set dirs" for n
  proof -
    from that filterE_Inr [OF dirs] have "keep (w_fs w) (SLIDES_DIR w) ONLY SKIP n = Inr True"
      by simp
    then have "\<exists>r. findEntry (w_fs w) (join2 (SLIDES_DIR w) n) = Inr r"
      by (auto simp: keep_def split: option.splits if_splits sum.splits)
    then show ?thesis by (auto simp: mk_deck_def)
  qed
  then obtain ds where "mapE (mk_deck (w_fs w) (SLIDES_DIR w)) dirs = Inr ds"
    using mapE_returns [of dirs "mk_deck (w_fs w) (SLIDES_DIR w)"] by blast
  with dirs assms(1,2) show ?thesis
    by (simp add: discoverDecks_def lift_def and_then_def)
qed

lemmas demo_simps =
  demo_world_def demo_fs_def demo_dirs_def demo_files_def SLIDES_DIR_def DIST_DIR_def
  join2_def js_simps

lemmas eval_discover =
  discoverDecks_def keep_def mk_deck_def lift_def and_then_def isOnly_def shouldSkip_def
  startsWith_def findEntry_def candidates_def endsWith_def

lemma demo_discover:
  "discoverDecks (demo_world penv child) [] [] =
     ([], Return
        [\<lparr>deck_name = js ''talk1'', deck_path = js ''/w/slides/talk1'',
           deck_entry = Some (js ''slides.md'')\<rparr>,
         \<lparr>deck_name = js ''old-1'', deck_path = js ''/w/slides/old-1'',
           deck_entry = Some (js ''b.md'')\<rparr>,
         \<lparr>deck_name = js ''talk2'', deck_path = js ''/w/slides/talk2'',
           deck_entry = Some (js ''slides.md'')\<rparr>])"
  by (simp add: eval_discover demo_simps)

lemma demo_matches_old:
  "\<not> matches (js ''talk1'') (js ''old-*'')" "matches (js ''old-1'') (js ''old-*'')"
  "\<not> matches (js ''talk2'') (js ''old-*'')"
  by (simp_all add: eval_matches)

lemma demo_discover_skip:
  "discoverDecks (demo_world penv child) [] [js ''old-*''] =
     ([], Return
        [\<lparr>deck_name = js ''talk1'', deck_path = js ''/w/slides/talk1'',
           deck_entry = Some (js ''slides.md'')\<rparr>,
         \<lparr>deck_name = js ''talk2'', deck_path = js ''/w/slides/talk2'',
           deck_entry = Some (js ''slides.md'')\<rparr>])"
  by (simp add: eval_discover demo_simps demo_matches_old)

lemma demo_candidates:
  "filter (spec_candidate demo_fs (js ''/w/slides''))
     [js ''talk1'', js ''_drafts'', js ''old-1'', js ''notes.txt'', js ''empty'', js ''talk2'']
   = [js ''talk1'', js ''old-1'', js ''talk2'']"
  by (simp add: spec_candidate_def startsWith_def findEntry_def candidates_def endsWith_def
      demo_fs_def demo_dirs_def demo_files_def join2_def js_simps)

lemma demo_matches_talk:
  "matches (js ''talk1'') (js ''talk*'')" "\<not> matches (js ''old-1'') (js ''talk*'')"
  "matches (js ''talk2'') (js ''talk*'')"
  "\<not> matches (js ''talk1'') (js ''old-1'')" "matches (js ''old-1'') (js ''old-1'')"
  "\<not> matches (js ''talk2'') (js ''old-1'')"
  "\<not> matches (js ''talk1'') (js ''*2'')" "\<not> matches (js ''old-1'') (js ''*2'')"
  "matches (js ''talk2'') (js ''*2'')"
  by (simp_all add: eval_matches)

text \<open>
  Claim C2. The names of the decks that discovery returns are the candidate names, in the
  order of the directory listing, filtered by the selection: a candidate is retained
  exactly when the include list is empty or the name matches one of its patterns, and the
  name matches no pattern of the exclude list. This holds whenever discovery returns, and
  discovery does return, with no output, whenever \<open>slides\<close> exists and can be listed,
  every name in it can be examined and every directory in it can be listed.
\<close>

theorem selector_retains:
  "(\<forall>ev ds. discoverDecks w ONLY SKIP = (ev, Return ds) \<longrightarrow>
      (\<exists>names. readdirSync (w_fs w) (SLIDES_DIR w) = Some names \<and>
         map deck_name ds =
           filter (\<lambda>n. (ONLY = [] \<or> (\<exists>p\<in>set ONLY. matches n p)) \<and>
                        \<not> (\<exists>p\<in>set SKIP. matches n p))
             (filter (spec_candidate (w_fs w) (SLIDES_DIR w)) names))) \<and>
   (existsSync (w_fs w) (SLIDES_DIR w) \<and>
    readdirSync (w_fs w) (SLIDES_DIR w) = Some names \<and>
    (\<forall>n\<in>set names. isDirectory (w_fs w) (join2 (SLIDES_DIR w) n) \<noteq> None) \<and>
    (\<forall>n\<in>set names. isDirectory (w_fs w) (join2 (SLIDES_DIR w) n) = Some True \<longrightarrow>
       readdirSync (w_fs w) (join2 (SLIDES_DIR w) n) \<noteq> None) \<longrightarrow>
    (\<exists>ds. discoverDecks w ONLY SKIP = ([], Return ds) \<and>
       map deck_name ds =
         filter (\<lambda>n. (ONLY = [] \<or> (\<exists>p\<in>set ONLY. matches n p)) \<and>
                      \<not> (\<exists>p\<in>set SKIP. matches n p))
           (filter (spec_candidate (w_fs w) (SLIDES_DIR w)) names)))"
proof -
  have sel: "filter (\<lambda>n. spec_candidate (w_fs w) (SLIDES_DIR w) n \<and>
                         isOnly ONLY n \<and> \<not> shouldSkip SKIP n) ns =
             filter (\<lambda>n. (ONLY = [] \<or> (\<exists>p\<in>set ONLY. matches n p)) \<and>
                          \<not> (\<exists>p\<in>set SKIP. matches n p))
               (filter (spec_candidate (w_fs w) (SLIDES_DIR w)) ns)" for ns
    by (auto simp: isOnly_def shouldSkip_def list_ex_iff conj_commute intro!: filter_cong)
  have a: "\<exists>names. readdirSync (w_fs w) (SLIDES_DIR w) = Some names \<and>
         map deck_name ds =
           filter (\<lambda>n. (ONLY = [] \<or> (\<exists>p\<in>set ONLY. matches n p)) \<and>
                        \<not> (\<exists>p\<in>set SKIP. matches n p))
             (filter (spec_candidate (w_fs w) (SLIDES_DIR w)) names)"
    if "discoverDecks w ONLY SKIP = (ev, Return ds)" for ev ds
    using discoverDecks_Return [OF that] unfolding sel by blast
  have b: "\<exists>ds. discoverDecks w ONLY SKIP = ([], Return ds) \<and>
       map deck_name ds =
         filter (\<lambda>n. (ONLY = [] \<or> (\<exists>p\<in>set ONLY. matches n p)) \<and>
                      \<not> (\<exists>p\<in>set SKIP. matches n p))
           (filter (spec_candidate (w_fs w) (SLIDES_DIR w)) names)"
    if h: "existsSync (w_fs w) (SLIDES_DIR w)"
      "readdirSync (w_fs w) (SLIDES_DIR w) = Some names"
      "\<forall>n\<in>set names. isDirectory (w_fs w) (join2 (SLIDES_DIR w) n) \<noteq> None"
      "\<forall>n\<in>set names. isDirectory (w_fs w) (join2 (SLIDES_DIR w) n) = Some True \<longrightarrow>
         readdirSync (w_fs w) (join2 (SLIDES_DIR w) n) \<noteq> None"
  proof -
    from discoverDecks_returns [OF h] obtain ds where
      d: "discoverDecks w ONLY SKIP = ([], Return ds)" by blast
    from a [OF d] h(2) d show ?thesis by auto
  qed
  from a b show ?thesis by blast
qed

text \<open>
  The example of the specification on the example tree, through the theorem: nothing to
  include and \<open>old-*\<close> to exclude; then \<open>old-1\<close> and \<open>talk*\<close> to include and \<open>*2\<close>
  to exclude. The decks come in the order of the listing, not of the patterns.
\<close>

theorem selector_retains_witness:
  "(\<exists>ds. discoverDecks (demo_world Map.empty (\<lambda>_. Some 0)) [] [js ''old-*'']
            = ([], Return ds) \<and>
          map deck_name ds = [js ''talk1'', js ''talk2'']) \<and>
   (\<exists>ds. discoverDecks (demo_world Map.empty (\<lambda>_. Some 0)) [js ''old-1'', js ''talk*''] [js ''*2'']
            = ([], Return ds) \<and>
          map deck_name ds = [js ''talk1'', js ''old-1''])"
proof -
  let ?W = "demo_world Map.empty (\<lambda>_. Some 0)"
  let ?names = "[js ''talk1'', js ''_drafts'', js ''old-1'', js ''notes.txt'', js ''empty'', js ''talk2'']"
  have s: "SLIDES_DIR ?W = js ''/w/slides''" by (simp add: demo_simps)
  have f: "w_fs ?W = demo_fs" by (simp add: demo_world_def)
  have h: "existsSync (w_fs ?W) (SLIDES_DIR ?W) \<and>
    readdirSync (w_fs ?W) (SLIDES_DIR ?W) = Some ?names \<and>
    (\<forall>n\<in>set ?names. isDirectory (w_fs ?W) (join2 (SLIDES_DIR ?W) n) \<noteq> None) \<and>
    (\<forall>n\<in>set ?names. isDirectory (w_fs ?W) (join2 (SLIDES_DIR ?W) n) = Some True \<longrightarrow>
       readdirSync (w_fs ?W) (join2 (SLIDES_DIR ?W) n) \<noteq> None)"
    by (auto simp: demo_simps)
  from selector_retains [of ?W "[]" "[js ''old-*'']" ?names] h
  have 1: "\<exists>ds. discoverDecks ?W [] [js ''old-*''] = ([], Return ds) \<and>
          map deck_name ds = [js ''talk1'', js ''talk2'']"
    unfolding s f demo_candidates by (simp add: demo_matches_old)
  from selector_retains [of ?W "[js ''old-1'', js ''talk*'']" "[js ''*2'']" ?names] h
  have 2: "\<exists>ds. discoverDecks ?W [js ''old-1'', js ''talk*''] [js ''*2''] = ([], Return ds) \<and>
          map deck_name ds = [js ''talk1'', js ''old-1'']"
    unfolding s f demo_candidates by (simp add: demo_matches_talk)
  from 1 2 show ?thesis by (rule conjI)
qed

lemma not_discovered:
  assumes "discoverDecks w ONLY SKIP = (ev, Return ds)"
    and "\<not> spec_candidate (w_fs w) (SLIDES_DIR w) name"
  shows "name \<notin> deck_name ` set ds"
proof -
  from discoverDecks_Return [OF assms(1)] obtain names where
    "map deck_name ds = filter (\<lambda>n. spec_candidate (w_fs w) (SLIDES_DIR w) n \<and>
                                       isOnly ONLY n \<and> \<not> shouldSkip SKIP n) names"
    by blast
  then have "set (map deck_name ds) \<subseteq> {n. spec_candidate (w_fs w) (SLIDES_DIR w) n}"
    by auto
  with assms(2) show ?thesis by auto
qed

lemma dev_resolved:
  assumes "js_or argv2 (w_env w (js ''DECK'')) = Some name" "name \<noteq> []"
    and "existsSync (w_fs w) (join2 (SLIDES_DIR w) name)"
  shows "dev w argv2 =
     (case dev_entry (w_fs w) (join2 (SLIDES_DIR w) name) of
        Inl e \<Rightarrow> ([Stderr (Uncaught e)], 1)
      | Inr None \<Rightarrow> ([Stderr (NoEntry (join2 (SLIDES_DIR w) name))], 1)
      | Inr (Some entry) \<Rightarrow>
          ([Spawn (dev_req w (join2 (SLIDES_DIR w) name) entry)],
           process_exit (w_child w (dev_req w (join2 (SLIDES_DIR w) name) entry))))"
  using assms by (simp add: dev_def Let_def split: sum.splits option.splits)

lemma js_or_Some [simp]: "s \<noteq> [] \<Longrightarrow> js_or (Some s) b = Some s"
  by (simp add: js_or_def)

text \<open>
  Claim C3. Entry resolution returns the first of \<open>slides.md\<close>, \<open>index.md\<close>,
  \<open>deck.md\<close>, \<open>presentation.md\<close> that exists, in that order; when none exists, the
  first name of the directory listing that ends in \<open>.md\<close>; and \<open>null\<close> when there is
  none. The dev script resolves the same entry. A directory without entry is not among the
  discovered decks, and the dev script ends with status 1 on it without a child.
\<close>

theorem entry_resolution:
  "findEntry (w_fs w) p =
     (if existsSync (w_fs w) (join2 p (js ''slides.md'')) then Inr (Some (js ''slides.md''))
      else if existsSync (w_fs w) (join2 p (js ''index.md'')) then Inr (Some (js ''index.md''))
      else if existsSync (w_fs w) (join2 p (js ''deck.md'')) then Inr (Some (js ''deck.md''))
      else if existsSync (w_fs w) (join2 p (js ''presentation.md''))
        then Inr (Some (js ''presentation.md''))
      else (case readdirSync (w_fs w) p of
              None \<Rightarrow> Inl (FsError p)
            | Some files \<Rightarrow> Inr (find (\<lambda>f. endsWith f (js ''.md'')) files))) \<and>
   dev_entry (w_fs w) p = findEntry (w_fs w) p \<and>
   (findEntry (w_fs w) (join2 (SLIDES_DIR w) name) = Inr None \<longrightarrow>
      (\<forall>ev ds. discoverDecks w ONLY SKIP = (ev, Return ds) \<longrightarrow> name \<notin> deck_name ` set ds) \<and>
      (name \<noteq> [] \<and> existsSync (w_fs w) (join2 (SLIDES_DIR w) name) \<longrightarrow>
         dev w (Some name) = ([Stderr (NoEntry (join2 (SLIDES_DIR w) name))], 1)))"
proof (intro conjI impI allI)
  show "findEntry (w_fs w) p =
     (if existsSync (w_fs w) (join2 p (js ''slides.md'')) then Inr (Some (js ''slides.md''))
      else if existsSync (w_fs w) (join2 p (js ''index.md'')) then Inr (Some (js ''index.md''))
      else if existsSync (w_fs w) (join2 p (js ''deck.md'')) then Inr (Some (js ''deck.md''))
      else if existsSync (w_fs w) (join2 p (js ''presentation.md''))
        then Inr (Some (js ''presentation.md''))
      else (case readdirSync (w_fs w) p of
              None \<Rightarrow> Inl (FsError p)
            | Some files \<Rightarrow> Inr (find (\<lambda>f. endsWith f (js ''.md'')) files)))"
    by (rule findEntry_priority)
  show "dev_entry (w_fs w) p = findEntry (w_fs w) p"
    by (rule dev_entry_findEntry)
next
  fix ev ds
  assume "findEntry (w_fs w) (join2 (SLIDES_DIR w) name) = Inr None"
    and "discoverDecks w ONLY SKIP = (ev, Return ds)"
  then show "name \<notin> deck_name ` set ds"
    by (intro not_discovered) (auto simp: spec_candidate_def)
next
  assume "findEntry (w_fs w) (join2 (SLIDES_DIR w) name) = Inr None"
    and "name \<noteq> [] \<and> existsSync (w_fs w) (join2 (SLIDES_DIR w) name)"
  then show "dev w (Some name) = ([Stderr (NoEntry (join2 (SLIDES_DIR w) name))], 1)"
    using dev_resolved [of "Some name" w name] by (simp add: dev_entry_findEntry)
qed

text \<open>
  In the example tree: \<open>talk1\<close> holds \<open>index.md\<close> and \<open>slides.md\<close>, \<open>old-1\<close> no
  canonical entry, \<open>empty\<close> no Markdown file.
\<close>

theorem entry_resolution_witness:
  "findEntry (w_fs (demo_world Map.empty (\<lambda>_. Some 0))) (js ''/w/slides/talk1'')
     = Inr (Some (js ''slides.md'')) \<and>
   findEntry (w_fs (demo_world Map.empty (\<lambda>_. Some 0))) (js ''/w/slides/old-1'')
     = Inr (Some (js ''b.md'')) \<and>
   dev (demo_world Map.empty (\<lambda>_. Some 0)) (Some (js ''empty''))
     = ([Stderr (NoEntry (js ''/w/slides/empty''))], 1)"
proof -
  let ?W = "demo_world Map.empty (\<lambda>_. Some 0)"
  have e: "findEntry (w_fs ?W) (join2 (SLIDES_DIR ?W) (js ''empty'')) = Inr None"
    by (simp add: findEntry_def candidates_def endsWith_def demo_simps)
  have x: "js ''empty'' \<noteq> [] \<and> existsSync (w_fs ?W) (join2 (SLIDES_DIR ?W) (js ''empty''))"
    by (simp add: demo_simps)
  have j: "join2 (SLIDES_DIR ?W) (js ''empty'') = js ''/w/slides/empty''"
    by (simp add: demo_simps)
  have t: "existsSync (w_fs ?W) (join2 (js ''/w/slides/talk1'') (js ''slides.md''))"
    by (simp add: demo_simps)
  have o: "\<not> existsSync (w_fs ?W) (join2 (js ''/w/slides/old-1'') (js ''slides.md''))"
    "\<not> existsSync (w_fs ?W) (join2 (js ''/w/slides/old-1'') (js ''index.md''))"
    "\<not> existsSync (w_fs ?W) (join2 (js ''/w/slides/old-1'') (js ''deck.md''))"
    "\<not> existsSync (w_fs ?W) (join2 (js ''/w/slides/old-1'') (js ''presentation.md''))"
    "readdirSync (w_fs ?W) (js ''/w/slides/old-1'') = Some [js ''a.txt'', js ''b.md'', js ''c.md'']"
    by (simp_all add: demo_simps)
  have f: "find (\<lambda>f. endsWith f (js ''.md'')) [js ''a.txt'', js ''b.md'', js ''c.md'']
             = Some (js ''b.md'')"
    by (simp add: endsWith_def js_simps)
  from entry_resolution [of ?W "js ''/w/slides/talk1''" "js ''empty''" "[]" "[]"] t
  have 1: "findEntry (w_fs ?W) (js ''/w/slides/talk1'') = Inr (Some (js ''slides.md''))"
    by (simp only: if_True)
  from entry_resolution [of ?W "js ''/w/slides/old-1''" "js ''empty''" "[]" "[]"] o f
  have 2: "findEntry (w_fs ?W) (js ''/w/slides/old-1'') = Inr (Some (js ''b.md''))"
    by (simp only: if_False option.case)
  from entry_resolution [of ?W "js ''/w/slides/talk1''" "js ''empty''" "[]" "[]"] e x
  have "dev ?W (Some (js ''empty'')) = ([Stderr (NoEntry (join2 (SLIDES_DIR ?W) (js ''empty'')))], 1)"
    by blast
  with j have 3: "dev ?W (Some (js ''empty'')) = ([Stderr (NoEntry (js ''/w/slides/empty''))], 1)"
    by (simp only:)
  from 1 2 3 show ?thesis by (simp only: simp_thms)
qed

section \<open>Properties of the batch run\<close>

lemma and_then_simps [simp]:
  "and_then (ev, Return x) f = (ev @ fst (f x), snd (f x))"
  "and_then (ev, Throw e) f = (ev, Throw e)"
  "and_then (ev, Exit n) f = (ev, Exit n)"
  by (simp_all add: and_then_def split: prod.splits)

lemma spawns_simps [simp]:
  "spawns [] = []"
  "spawns (Spawn q # tr) = q # spawns tr"
  "spawns (Stderr d # tr) = spawns tr"
  "spawns (Mkdir p # tr) = spawns tr"
  "spawns (WriteFile p c # tr) = spawns tr"
  "spawns (a @ b) = spawns a @ spawns b"
  by (simp_all add: spawns_def)

lemma writes_simps [simp]:
  "writes [] = []"
  "writes (Spawn q # tr) = writes tr"
  "writes (Stderr d # tr) = writes tr"
  "writes (Mkdir p # tr) = writes tr"
  "writes (WriteFile p c # tr) = p # writes tr"
  "writes (a @ b) = writes a @ writes b"
  by (simp_all add: writes_def)

text \<open>One deck: either no child (a directory or an argument failed), or one child.\<close>

lemma run_req_sel [simp]:
  "sp_cmd (run_req w cmd args cwd ex) = cmd" "sp_args (run_req w cmd args cwd ex) = args"
  "sp_cwd (run_req w cmd args cwd ex) = cwd"
  "sp_env (run_req w cmd args cwd ex) = run_env (w_env w) ex"
  by (simp_all add: run_req_def)

lemma buildDeck_unfold:
  "buildDeck w d =
     (if \<not> w_mkdir_ok w (join2 (DIST_DIR w) (deck_name d))
      then ([], Throw (FsError (join2 (DIST_DIR w) (deck_name d))))
      else
        (case deck_entry d of
           None \<Rightarrow> ([Mkdir (join2 (DIST_DIR w) (deck_name d))], Throw TypeError)
         | Some entry \<Rightarrow>
             (Mkdir (join2 (DIST_DIR w) (deck_name d)) #
              fst (run w (js ''npx'')
                 [js ''-y'', js ''slidev'', js ''build'', entry, js ''--base'',
                  js ''/'' @ deck_name d @ js ''/'', js ''--out'',
                  join2 (DIST_DIR w) (deck_name d)]
                 (deck_path d) Map.empty),
              snd (run w (js ''npx'')
                 [js ''-y'', js ''slidev'', js ''build'', entry, js ''--base'',
                  js ''/'' @ deck_name d @ js ''/'', js ''--out'',
                  join2 (DIST_DIR w) (deck_name d)]
                 (deck_path d) Map.empty))))"
  by (simp add: buildDeck_def mkdirSync_def Let_def split: option.splits)

lemma run_unfold:
  "run w cmd args cwd ex =
     ([Spawn (run_req w cmd args cwd ex)],
      if w_child w (run_req w cmd args cwd ex) = Some 0 then Return ()
      else Throw (SpawnFailed cmd args (w_child w (run_req w cmd args cwd ex))))"
  by (simp add: run_def Let_def)

lemma buildDeck_cases:
  assumes "buildDeck w d = (ev, r)"
  shows "writes ev = [] \<and>
         ((spawns ev = [] \<and> (\<exists>e. r = Throw e)) \<or>
          (\<exists>q. spawns ev = [q] \<and> sp_cwd q = deck_path d \<and>
                sp_env q = run_env (w_env w) Map.empty \<and>
                r = (if w_child w q = Some 0 then Return ()
                     else Throw (SpawnFailed (sp_cmd q) (sp_args q) (w_child w q)))))"
proof (cases "w_mkdir_ok w (join2 (DIST_DIR w) (deck_name d))")
  case False
  with assms have "ev = []" "r = Throw (FsError (join2 (DIST_DIR w) (deck_name d)))"
    by (simp_all add: buildDeck_unfold)
  then show ?thesis by simp
next
  case True
  show ?thesis
  proof (cases "deck_entry d")
    case None
    with True assms have "ev = [Mkdir (join2 (DIST_DIR w) (deck_name d))]" "r = Throw TypeError"
      by (simp_all add: buildDeck_unfold)
    then show ?thesis by simp
  next
    case (Some entry)
    define q where "q = run_req w (js ''npx'')
                 [js ''-y'', js ''slidev'', js ''build'', entry, js ''--base'',
                  js ''/'' @ deck_name d @ js ''/'', js ''--out'',
                  join2 (DIST_DIR w) (deck_name d)]
                 (deck_path d) Map.empty"
    from True Some assms have ev: "ev = [Mkdir (join2 (DIST_DIR w) (deck_name d)), Spawn q]"
      and r: "r = (if w_child w q = Some 0 then Return ()
                   else Throw (SpawnFailed (sp_cmd q) (sp_args q) (w_child w q)))"
      unfolding q_def by (auto simp: buildDeck_unfold run_unfold)
    have "sp_cwd q = deck_path d" "sp_env q = run_env (w_env w) Map.empty"
      by (simp_all add: q_def)
    with ev r show ?thesis by simp
  qed
qed

lemma build_loop_Cons:
  "build_loop w (d # ds) =
     (case buildDeck w d of
        (ev, Return u) \<Rightarrow> (ev @ fst (build_loop w ds), snd (build_loop w ds))
      | (ev, Throw e) \<Rightarrow> (ev, Throw e)
      | (ev, Exit n) \<Rightarrow> (ev, Exit n))"
  by (cases "buildDeck w d"; cases "snd (buildDeck w d)") auto

lemma build_loop_writes: "build_loop w ds = (ev, r) \<Longrightarrow> writes ev = []"
proof (induction ds arbitrary: ev r)
  case Nil
  then show ?case by auto
next
  case (Cons d ds)
  obtain ev1 r1 where b: "buildDeck w d = (ev1, r1)" by (cases "buildDeck w d")
  obtain ev2 r2 where l: "build_loop w ds = (ev2, r2)" by (cases "build_loop w ds")
  from buildDeck_cases [OF b] Cons.IH [OF l] Cons.prems b l show ?case
    by (auto simp: build_loop_Cons split: result.splits if_splits simp del: build_loop.simps)
qed

lemma build_loop_env:
  "build_loop w ds = (ev, r) \<Longrightarrow> \<forall>q\<in>set (spawns ev). sp_env q = run_env (w_env w) Map.empty"
proof (induction ds arbitrary: ev r)
  case Nil
  then show ?case by auto
next
  case (Cons d ds)
  obtain ev1 r1 where b: "buildDeck w d = (ev1, r1)" by (cases "buildDeck w d")
  obtain ev2 r2 where l: "build_loop w ds = (ev2, r2)" by (cases "build_loop w ds")
  from buildDeck_cases [OF b] Cons.IH [OF l] Cons.prems b l show ?case
    by (auto simp: build_loop_Cons split: result.splits if_splits simp del: build_loop.simps)
qed

lemma build_loop_result: "build_loop w ds = (ev, r) \<Longrightarrow> r = Return () \<or> (\<exists>e. r = Throw e)"
proof (induction ds arbitrary: ev r)
  case Nil
  then show ?case by auto
next
  case (Cons d ds)
  obtain ev1 r1 where b: "buildDeck w d = (ev1, r1)" by (cases "buildDeck w d")
  obtain ev2 r2 where l: "build_loop w ds = (ev2, r2)" by (cases "build_loop w ds")
  from buildDeck_cases [OF b] Cons.IH [OF l] Cons.prems b l show ?case
    by (auto simp: build_loop_Cons split: result.splits if_splits simp del: build_loop.simps)
qed

text \<open>The children of the loop are those of a prefix of the decks, in order.\<close>

lemma build_loop_prefix:
  "build_loop w ds = (ev, r) \<Longrightarrow>
     \<exists>n\<le>length ds. map sp_cwd (spawns ev) = map deck_path (take n ds) \<and>
        (r = Return () \<longrightarrow> n = length ds)"
proof (induction ds arbitrary: ev r)
  case Nil
  then show ?case by auto
next
  case (Cons d ds)
  obtain ev1 r1 where b: "buildDeck w d = (ev1, r1)" by (cases "buildDeck w d")
  obtain ev2 r2 where l: "build_loop w ds = (ev2, r2)" by (cases "build_loop w ds")
  from Cons.IH [OF l] obtain n where n: "n \<le> length ds"
    "map sp_cwd (spawns ev2) = map deck_path (take n ds)" "r2 = Return () \<longrightarrow> n = length ds"
    by blast
  from buildDeck_cases [OF b] consider
    (none) e where "spawns ev1 = []" "r1 = Throw e"
    | (fail) q where "spawns ev1 = [q]" "sp_cwd q = deck_path d" "w_child w q \<noteq> Some 0"
        "r1 = Throw (SpawnFailed (sp_cmd q) (sp_args q) (w_child w q))"
    | (ok) q where "spawns ev1 = [q]" "sp_cwd q = deck_path d" "w_child w q = Some 0"
        "r1 = Return ()"
    by (auto split: if_splits)
  then show ?case
  proof cases
    case none
    with Cons.prems b have "spawns ev = []" "r \<noteq> Return ()"
      by (auto simp: build_loop_Cons simp del: build_loop.simps)
    then show ?thesis by (intro exI [of _ 0]) simp
  next
    case fail
    with Cons.prems b have "spawns ev = [q]" "r \<noteq> Return ()"
      by (auto simp: build_loop_Cons simp del: build_loop.simps)
    with fail show ?thesis by (intro exI [of _ 1]) simp
  next
    case ok
    with Cons.prems b l have "spawns ev = q # spawns ev2" "r = r2"
      by (auto simp: build_loop_Cons simp del: build_loop.simps)
    with ok n show ?thesis by (intro exI [of _ "Suc n"]) simp
  qed
qed

text \<open>
  Either every child of the loop closed with code 0, or the last one did not, every
  earlier one did, and the loop threw the error of the last one.
\<close>

lemma build_loop_outcome:
  "build_loop w ds = (ev, r) \<Longrightarrow>
     (\<forall>q\<in>set (spawns ev). w_child w q = Some 0) \<or>
     (\<exists>qs q. spawns ev = qs @ [q] \<and> (\<forall>q'\<in>set qs. w_child w q' = Some 0) \<and>
        w_child w q \<noteq> Some 0 \<and>
        r = Throw (SpawnFailed (sp_cmd q) (sp_args q) (w_child w q)))"
proof (induction ds arbitrary: ev r)
  case Nil
  then show ?case by auto
next
  case (Cons d ds)
  obtain ev1 r1 where b: "buildDeck w d = (ev1, r1)" by (cases "buildDeck w d")
  obtain ev2 r2 where l: "build_loop w ds = (ev2, r2)" by (cases "build_loop w ds")
  from buildDeck_cases [OF b] consider
    (none) e where "spawns ev1 = []" "r1 = Throw e"
    | (fail) q where "spawns ev1 = [q]" "w_child w q \<noteq> Some 0"
        "r1 = Throw (SpawnFailed (sp_cmd q) (sp_args q) (w_child w q))"
    | (ok) q where "spawns ev1 = [q]" "w_child w q = Some 0" "r1 = Return ()"
    by (auto split: if_splits)
  then show ?case
  proof cases
    case none
    with Cons.prems b have "spawns ev = []"
      by (auto simp: build_loop_Cons simp del: build_loop.simps)
    then show ?thesis by simp
  next
    case fail
    with Cons.prems b have "spawns ev = [] @ [q]" "r = r1"
      by (auto simp: build_loop_Cons simp del: build_loop.simps)
    with fail show ?thesis by (intro disjI2 exI [of _ "[]"] exI [of _ q]) simp
  next
    case ok
    with Cons.prems b l have s: "spawns ev = q # spawns ev2" "r = r2"
      by (auto simp: build_loop_Cons simp del: build_loop.simps)
    from Cons.IH [OF l] show ?thesis
    proof
      assume "\<forall>q\<in>set (spawns ev2). w_child w q = Some 0"
      with s ok show ?thesis by simp
    next
      assume "\<exists>qs q. spawns ev2 = qs @ [q] \<and> (\<forall>q'\<in>set qs. w_child w q' = Some 0) \<and>
        w_child w q \<noteq> Some 0 \<and> r2 = Throw (SpawnFailed (sp_cmd q) (sp_args q) (w_child w q))"
      then obtain qs q' where "spawns ev2 = qs @ [q']" "\<forall>x\<in>set qs. w_child w x = Some 0"
        "w_child w q' \<noteq> Some 0"
        "r2 = Throw (SpawnFailed (sp_cmd q') (sp_args q') (w_child w q'))" by blast
      with s ok have "spawns ev = (q # qs) @ [q']" "\<forall>x\<in>set (q # qs). w_child w x = Some 0"
        "w_child w q' \<noteq> Some 0"
        "r = Throw (SpawnFailed (sp_cmd q') (sp_args q') (w_child w q'))" by auto
      then show ?thesis by blast
    qed
  qed
qed

lemma build_loop_Return_ok:
  "build_loop w ds = (ev, Return ()) \<Longrightarrow> \<forall>q\<in>set (spawns ev). w_child w q = Some 0"
  using build_loop_outcome [of w ds ev "Return ()"] by auto

lemma generateIndex_cases:
  "generateIndex w ds =
     (if \<not> w_mkdir_ok w (DIST_DIR w) then ([], Throw (FsError (DIST_DIR w)))
      else if \<not> w_write_ok w (join2 (DIST_DIR w) (js ''index.html''))
        then ([Mkdir (DIST_DIR w)], Throw (FsError (join2 (DIST_DIR w) (js ''index.html''))))
      else ([Mkdir (DIST_DIR w),
             WriteFile (join2 (DIST_DIR w) (js ''index.html'')) (index_html (w_fs w) ds)],
            Return ()))"
  by (simp add: generateIndex_def mkdirSync_def writeFileSync_def)

text \<open>The batch run after a discovery that returned, in terms of the loop.\<close>

lemma batch_after_discover:
  assumes "discoverDecks w (ONLY_of w) (SKIP_of w) = (ev0, Return ds)"
  shows "batch w =
     (if ds = [] then ([], 0)
      else if \<not> w_mkdir_ok w (DIST_DIR w)
        then ([Stderr (BuildFailed (FsError (DIST_DIR w)))], 1)
      else
        (case build_loop w ds of
           (ev1, Return u) \<Rightarrow>
             (if \<not> w_write_ok w (join2 (DIST_DIR w) (js ''index.html''))
              then (Mkdir (DIST_DIR w) # ev1 @
                      [Mkdir (DIST_DIR w),
                       Stderr (BuildFailed (FsError (join2 (DIST_DIR w) (js ''index.html''))))],
                    1)
              else (Mkdir (DIST_DIR w) # ev1 @
                      [Mkdir (DIST_DIR w),
                       WriteFile (join2 (DIST_DIR w) (js ''index.html''))
                         (index_html (w_fs w) ds)],
                    0))
         | (ev1, Throw e) \<Rightarrow> (Mkdir (DIST_DIR w) # ev1 @ [Stderr (BuildFailed e)], 1)
         | (ev1, Exit n) \<Rightarrow> (Mkdir (DIST_DIR w) # ev1, n)))"
proof -
  from discoverDecks_Return [OF assms] have ev0: "ev0 = []" by simp
  obtain ev1 r1 where l: "build_loop w ds = (ev1, r1)" by (cases "build_loop w ds")
  show ?thesis
    using assms ev0 l
    by (cases r1)
       (simp_all add: batch_def main_body_def mkdirSync_def generateIndex_cases)
qed

lemma batch_no_discover:
  "discoverDecks w (ONLY_of w) (SKIP_of w) = (ev0, Throw e) \<Longrightarrow>
     batch w = (ev0 @ [Stderr (BuildFailed e)], 1)"
  "discoverDecks w (ONLY_of w) (SKIP_of w) = (ev0, Exit n) \<Longrightarrow> batch w = (ev0, n)"
  by (simp_all add: batch_def main_body_def)

lemma discoverDecks_entries:
  assumes "discoverDecks w ONLY SKIP = (ev, Return ds)"
  shows "\<forall>d\<in>set ds. \<exists>e. deck_entry d = Some e"
proof
  fix d assume d: "d \<in> set ds"
  from discoverDecks_Return [OF assms] obtain names where
    n: "map deck_name ds = filter (\<lambda>n. spec_candidate (w_fs w) (SLIDES_DIR w) n \<and>
                                       isOnly ONLY n \<and> \<not> shouldSkip SKIP n) names"
    and f: "\<forall>d\<in>set ds. findEntry (w_fs w) (join2 (SLIDES_DIR w) (deck_name d)) = Inr (deck_entry d)"
    by blast
  from d have "deck_name d \<in> set (map deck_name ds)" by simp
  with n have "spec_candidate (w_fs w) (SLIDES_DIR w) (deck_name d)" by simp
  with f d show "\<exists>e. deck_entry d = Some e"
    by (auto simp: spec_candidate_def split: sum.splits option.splits)
qed

lemma build_loop_all_ok:
  assumes "\<forall>q. w_child w q = Some 0" "\<forall>p. w_mkdir_ok w p" "\<forall>d\<in>set ds. deck_entry d \<noteq> None"
  shows "snd (build_loop w ds) = Return ()"
  using assms(3)
proof (induction ds)
  case Nil
  show ?case by simp
next
  case (Cons d ds)
  then obtain e where "deck_entry d = Some e" by auto
  with assms(1,2) have "snd (buildDeck w d) = Return ()"
    by (simp add: buildDeck_unfold run_unfold)
  with Cons show ?case
    by (cases "buildDeck w d") (simp add: build_loop_Cons del: build_loop.simps)
qed

lemma batch_of_loop:
  assumes d: "discoverDecks w (ONLY_of w) (SKIP_of w) = (ev0, Return ds)"
    and l: "build_loop w ds = (ev1, r1)"
  shows "spawns (fst (batch w)) =
           (if ds = [] \<or> \<not> w_mkdir_ok w (DIST_DIR w) then [] else spawns ev1)"
    and "writes (fst (batch w)) =
           (if ds \<noteq> [] \<and> w_mkdir_ok w (DIST_DIR w) \<and> r1 = Return () \<and>
               w_write_ok w (join2 (DIST_DIR w) (js ''index.html''))
            then [join2 (DIST_DIR w) (js ''index.html'')] else [])"
    and "snd (batch w) =
           (if ds = [] \<or> (w_mkdir_ok w (DIST_DIR w) \<and> r1 = Return () \<and>
               w_write_ok w (join2 (DIST_DIR w) (js ''index.html'')))
            then 0 else 1)"
    and "ds \<noteq> [] \<Longrightarrow> w_mkdir_ok w (DIST_DIR w) \<Longrightarrow> r1 = Throw e \<Longrightarrow>
           last (fst (batch w)) = Stderr (BuildFailed e)"
  using build_loop_writes [OF l] build_loop_result [OF l] l
  unfolding batch_after_discover [OF d]
  by (cases r1; simp)+

lemma batch_spawn_in_loop:
  assumes "q \<in> set (spawns (fst (batch w)))"
  shows "\<exists>ev0 ds ev1 r1. discoverDecks w (ONLY_of w) (SKIP_of w) = (ev0, Return ds) \<and>
           build_loop w ds = (ev1, r1) \<and> spawns (fst (batch w)) = spawns ev1 \<and>
           ds \<noteq> [] \<and> w_mkdir_ok w (DIST_DIR w)"
proof -
  obtain ev0 r0 where d: "discoverDecks w (ONLY_of w) (SKIP_of w) = (ev0, r0)"
    by (cases "discoverDecks w (ONLY_of w) (SKIP_of w)")
  from discoverDecks_events [OF d] have e: "spawns ev0 = []" by simp
  show ?thesis
  proof (cases r0)
    case (Return ds)
    obtain ev1 r1 where l: "build_loop w ds = (ev1, r1)" by (cases "build_loop w ds")
    from batch_of_loop(1) [OF d [unfolded Return] l] assms
    have "spawns (fst (batch w)) = spawns ev1 \<and> ds \<noteq> [] \<and> w_mkdir_ok w (DIST_DIR w)"
      by (auto split: if_splits)
    with d Return l show ?thesis by blast
  next
    case (Throw e)
    with d e assms show ?thesis by (simp add: batch_no_discover)
  next
    case (Exit n)
    with d e assms show ?thesis by (simp add: batch_no_discover)
  qed
qed

text \<open>
  Claim C4. The children of a batch run are those of the first \<open>n\<close> selected decks, one
  after the other; when the child of the \<open>i\<close>-th of them closes with a code other than 0,
  it is the last one (\<open>n = i + 1\<close>: no child for any later deck) and the run writes no file, so
  \<open>dist/index.html\<close> is not written.
\<close>

theorem batch_fail_fast:
  assumes "discoverDecks w (ONLY_of w) (SKIP_of w) = (ev0, Return ds)"
  shows "\<exists>n\<le>length ds.
           map sp_cwd (spawns (fst (batch w))) = map deck_path (take n ds) \<and>
           (\<forall>i<n. w_child w (spawns (fst (batch w)) ! i) \<noteq> Some 0 \<longrightarrow>
              n = Suc i \<and> writes (fst (batch w)) = [])"
proof (cases "ds = [] \<or> \<not> w_mkdir_ok w (DIST_DIR w)")
  case True
  obtain ev1 r1 where l: "build_loop w ds = (ev1, r1)" by (cases "build_loop w ds")
  from batch_of_loop(1) [OF assms l] True have "spawns (fst (batch w)) = []" by simp
  then show ?thesis by (intro exI [of _ 0]) simp
next
  case False
  obtain ev1 r1 where l: "build_loop w ds = (ev1, r1)" by (cases "build_loop w ds")
  from batch_of_loop(1) [OF assms l] False have s: "spawns (fst (batch w)) = spawns ev1"
    by simp
  from build_loop_prefix [OF l] obtain n where n: "n \<le> length ds"
    "map sp_cwd (spawns ev1) = map deck_path (take n ds)" by blast
  then have len: "length (spawns ev1) = n"
    by (metis length_map length_take min.absorb2)
  have "n = Suc i \<and> writes (fst (batch w)) = []"
    if i: "i < n" and f: "w_child w (spawns ev1 ! i) \<noteq> Some 0" for i
  proof -
    from i len f have "\<not> (\<forall>q\<in>set (spawns ev1). w_child w q = Some 0)"
      using nth_mem by blast
    with build_loop_outcome [OF l] obtain qs q where q: "spawns ev1 = qs @ [q]"
      "\<forall>q'\<in>set qs. w_child w q' = Some 0"
      "r1 = Throw (SpawnFailed (sp_cmd q) (sp_args q) (w_child w q))" by blast
    have "\<not> i < length qs"
    proof
      assume "i < length qs"
      then have "spawns ev1 ! i \<in> set qs" using q(1) by (simp add: nth_append)
      with q(2) f show False by blast
    qed
    with i len q(1) have "n = Suc i" by simp
    moreover from batch_of_loop(2) [OF assms l] q(3) have "writes (fst (batch w)) = []"
      by simp
    ultimately show ?thesis by simp
  qed
  with n s show ?thesis by auto
qed

text \<open>
  Claim C6. The batch run ends with status 0 when no deck is selected, and whenever it
  writes the index (then the index is the only file written and every child has closed
  with code 0); in a world where every child closes with code 0 and every directory and
  file can be written, a run with a deck selected writes the index and ends with status 0.
  It ends with status 1 and the diagnostic of the error when the directory \<open>slides\<close> is
  missing and when a child closes with another code: the last event is the diagnostic with
  the command and the code of that child.
\<close>

theorem batch_exit_status:
  "(discoverDecks w (ONLY_of w) (SKIP_of w) = (ev0, Return []) \<longrightarrow> batch w = ([], 0)) \<and>
   (writes (fst (batch w)) \<noteq> [] \<longrightarrow>
      snd (batch w) = 0 \<and>
      writes (fst (batch w)) = [join2 (DIST_DIR w) (js ''index.html'')] \<and>
      (\<forall>q\<in>set (spawns (fst (batch w))). w_child w q = Some 0)) \<and>
   (discoverDecks w (ONLY_of w) (SKIP_of w) = (ev0, Return ds) \<and> ds \<noteq> [] \<and>
    (\<forall>q. w_child w q = Some 0) \<and> (\<forall>p. w_mkdir_ok w p) \<and> (\<forall>p. w_write_ok w p) \<longrightarrow>
      snd (batch w) = 0 \<and>
      writes (fst (batch w)) = [join2 (DIST_DIR w) (js ''index.html'')]) \<and>
   (\<not> existsSync (w_fs w) (SLIDES_DIR w) \<longrightarrow> batch w = ([Stderr NoSlidesDir], 1)) \<and>
   (q \<in> set (spawns (fst (batch w))) \<and> w_child w q \<noteq> Some 0 \<longrightarrow>
      snd (batch w) = 1 \<and>
      last (fst (batch w)) =
        Stderr (BuildFailed (SpawnFailed (sp_cmd q) (sp_args q) (w_child w q))))"
proof -
  have c1: "batch w = ([], 0)"
    if "discoverDecks w (ONLY_of w) (SKIP_of w) = (ev0, Return [])"
    using that by (simp add: batch_after_discover)
  have c2: "snd (batch w) = 0 \<and>
      writes (fst (batch w)) = [join2 (DIST_DIR w) (js ''index.html'')] \<and>
      (\<forall>q\<in>set (spawns (fst (batch w))). w_child w q = Some 0)"
    if wr: "writes (fst (batch w)) \<noteq> []"
  proof -
    obtain ev0' r0 where d: "discoverDecks w (ONLY_of w) (SKIP_of w) = (ev0', r0)"
      by (cases "discoverDecks w (ONLY_of w) (SKIP_of w)")
    from discoverDecks_events [OF d] have e: "writes ev0' = []" by simp
    from d e wr obtain ds' where r0: "r0 = Return ds'"
      by (cases r0) (auto simp: batch_no_discover)
    obtain ev1 r1 where l: "build_loop w ds' = (ev1, r1)" by (cases "build_loop w ds'")
    note b = batch_of_loop [OF d [unfolded r0] l]
    from b(2) wr have ok: "ds' \<noteq> []" "w_mkdir_ok w (DIST_DIR w)" "r1 = Return ()"
      "w_write_ok w (join2 (DIST_DIR w) (js ''index.html''))"
      by (auto split: if_splits)
    from build_loop_Return_ok [OF l [unfolded ok(3)]] b ok show ?thesis by simp
  qed
  have c3: "snd (batch w) = 0 \<and>
      writes (fst (batch w)) = [join2 (DIST_DIR w) (js ''index.html'')]"
    if a: "discoverDecks w (ONLY_of w) (SKIP_of w) = (ev0, Return ds) \<and> ds \<noteq> [] \<and>
      (\<forall>q. w_child w q = Some 0) \<and> (\<forall>p. w_mkdir_ok w p) \<and> (\<forall>p. w_write_ok w p)"
  proof -
    from a have d: "discoverDecks w (ONLY_of w) (SKIP_of w) = (ev0, Return ds)" by simp
    have entries: "\<forall>d\<in>set ds. deck_entry d \<noteq> None"
      using discoverDecks_entries [OF d] by auto
    obtain ev1 r1 where l: "build_loop w ds = (ev1, r1)" by (cases "build_loop w ds")
    from a entries have "snd (build_loop w ds) = Return ()"
      by (intro build_loop_all_ok) auto
    with l have r1: "r1 = Return ()" by simp
    from batch_of_loop(2,3) [OF d l] a r1 show ?thesis by simp
  qed
  have c4: "batch w = ([Stderr NoSlidesDir], 1)" if "\<not> existsSync (w_fs w) (SLIDES_DIR w)"
    using that by (simp add: batch_def main_body_def discoverDecks_def)
  have c5: "snd (batch w) = 1 \<and>
      last (fst (batch w)) =
        Stderr (BuildFailed (SpawnFailed (sp_cmd q) (sp_args q) (w_child w q)))"
    if a: "q \<in> set (spawns (fst (batch w))) \<and> w_child w q \<noteq> Some 0"
  proof -
    from a obtain ev0' ds' ev1 r1 where
      d: "discoverDecks w (ONLY_of w) (SKIP_of w) = (ev0', Return ds')"
      and l: "build_loop w ds' = (ev1, r1)" and s: "spawns (fst (batch w)) = spawns ev1"
      and ok: "ds' \<noteq> []" "w_mkdir_ok w (DIST_DIR w)"
      using batch_spawn_in_loop [of q w] by blast
    from a s have "\<not> (\<forall>q\<in>set (spawns ev1). w_child w q = Some 0)" by auto
    with build_loop_outcome [OF l] obtain qs q' where q: "spawns ev1 = qs @ [q']"
      "\<forall>x\<in>set qs. w_child w x = Some 0"
      "r1 = Throw (SpawnFailed (sp_cmd q') (sp_args q') (w_child w q'))" by blast
    from a s q have "q = q'" by auto
    with q(3) have r1: "r1 = Throw (SpawnFailed (sp_cmd q) (sp_args q) (w_child w q))"
      by simp
    from batch_of_loop(3,4) [OF d l] ok r1 show ?thesis by simp
  qed
  from c1 c2 c3 c4 c5 show ?thesis by blast
qed

lemma pattern_list_None: "pattern_list None = []"
  by (simp add: pattern_list_def trim_def)

lemma demo_ONLY_SKIP:
  "penv (js ''SLIDE_DECKS'') = None \<Longrightarrow> ONLY_of (demo_world penv child) = []"
  "penv (js ''SKIP_DECKS'') = None \<Longrightarrow> SKIP_of (demo_world penv child) = []"
  by (simp_all add: ONLY_of_def SKIP_of_def demo_world_def pattern_list_None)

lemma demo_discover_env:
  assumes "penv (js ''SLIDE_DECKS'') = None" "penv (js ''SKIP_DECKS'') = None"
  shows "discoverDecks (demo_world penv child) (ONLY_of (demo_world penv child))
           (SKIP_of (demo_world penv child)) =
     ([], Return
        [\<lparr>deck_name = js ''talk1'', deck_path = js ''/w/slides/talk1'',
           deck_entry = Some (js ''slides.md'')\<rparr>,
         \<lparr>deck_name = js ''old-1'', deck_path = js ''/w/slides/old-1'',
           deck_entry = Some (js ''b.md'')\<rparr>,
         \<lparr>deck_name = js ''talk2'', deck_path = js ''/w/slides/talk2'',
           deck_entry = Some (js ''slides.md'')\<rparr>])"
  using assms by (simp add: demo_ONLY_SKIP demo_discover)

lemma demo_world_sel [simp]:
  "w_root (demo_world penv child) = js ''/w''" "w_env (demo_world penv child) = penv"
  "w_child (demo_world penv child) = child" "w_mkdir_ok (demo_world penv child) p"
  "w_write_ok (demo_world penv child) p" "w_fs (demo_world penv child) = demo_fs"
  by (simp_all add: demo_world_def)

lemma demo_fail_spawns:
  "map sp_cwd (spawns (fst (batch (demo_world Map.empty fail_old)))) =
     [js ''/w/slides/talk1'', js ''/w/slides/old-1'']"
proof -
  have d: "discoverDecks (demo_world Map.empty fail_old) (ONLY_of (demo_world Map.empty fail_old))
           (SKIP_of (demo_world Map.empty fail_old)) =
     ([], Return
        [\<lparr>deck_name = js ''talk1'', deck_path = js ''/w/slides/talk1'',
           deck_entry = Some (js ''slides.md'')\<rparr>,
         \<lparr>deck_name = js ''old-1'', deck_path = js ''/w/slides/old-1'',
           deck_entry = Some (js ''b.md'')\<rparr>,
         \<lparr>deck_name = js ''talk2'', deck_path = js ''/w/slides/talk2'',
           deck_entry = Some (js ''slides.md'')\<rparr>])"
    by (rule demo_discover_env) simp_all
  show ?thesis
    unfolding batch_after_discover [OF d]
    by (simp add: buildDeck_unfold run_unfold fail_old_def js_simps)
qed

text \<open>
  The example of the specification: the renderer fails on the second of three decks; the
  third is not built and no file is written.
\<close>

theorem batch_fail_fast_witness:
  "map sp_cwd (spawns (fst (batch (demo_world Map.empty fail_old)))) =
     [js ''/w/slides/talk1'', js ''/w/slides/old-1''] \<and>
   writes (fst (batch (demo_world Map.empty fail_old))) = []"
proof -
  let ?W = "demo_world Map.empty fail_old"
  let ?DS = "[\<lparr>deck_name = js ''talk1'', deck_path = js ''/w/slides/talk1'',
           deck_entry = Some (js ''slides.md'')\<rparr>,
         \<lparr>deck_name = js ''old-1'', deck_path = js ''/w/slides/old-1'',
           deck_entry = Some (js ''b.md'')\<rparr>,
         \<lparr>deck_name = js ''talk2'', deck_path = js ''/w/slides/talk2'',
           deck_entry = Some (js ''slides.md'')\<rparr>]"
  have d: "discoverDecks ?W (ONLY_of ?W) (SKIP_of ?W) = ([], Return ?DS)"
    by (rule demo_discover_env) simp_all
  from batch_fail_fast [OF d] obtain n where n: "n \<le> length ?DS"
    "map sp_cwd (spawns (fst (batch ?W))) = map deck_path (take n ?DS)"
    "\<forall>i<n. w_child ?W (spawns (fst (batch ?W)) ! i) \<noteq> Some 0 \<longrightarrow>
       n = Suc i \<and> writes (fst (batch ?W)) = []"
    by blast
  from arg_cong [OF demo_fail_spawns, of length]
  have len: "length (spawns (fst (batch ?W))) = 2" by simp
  from arg_cong [OF n(2), of length] len n(1) have n2: "n = 2" by simp
  have "map sp_cwd (spawns (fst (batch ?W))) ! 1 = js ''/w/slides/old-1''"
    by (simp add: demo_fail_spawns)
  with len have "sp_cwd (spawns (fst (batch ?W)) ! 1) = js ''/w/slides/old-1''"
    by simp
  then have "w_child ?W (spawns (fst (batch ?W)) ! 1) \<noteq> Some 0"
    by (simp add: fail_old_def)
  with n(3) [THEN spec, of 1] n2 have "writes (fst (batch ?W)) = []" by simp
  with demo_fail_spawns show ?thesis by simp
qed

lemma demo_none:
  "discoverDecks (demo_world [js ''SLIDE_DECKS'' \<mapsto> js ''none''] child)
     (ONLY_of (demo_world [js ''SLIDE_DECKS'' \<mapsto> js ''none''] child))
     (SKIP_of (demo_world [js ''SLIDE_DECKS'' \<mapsto> js ''none''] child)) = ([], Return [])"
proof -
  have p: "pattern_list (Some (js ''none'')) = [js ''none'']"
    by (simp add: pattern_list_def trim_def js_def is_white_space_def is_line_terminator_def)
  have m: "\<not> matches (js ''talk1'') (js ''none'')" "\<not> matches (js ''old-1'') (js ''none'')"
    "\<not> matches (js ''talk2'') (js ''none'')"
    by (simp_all add: eval_matches)
  have o: "ONLY_of (demo_world [js ''SLIDE_DECKS'' \<mapsto> js ''none''] child) = [js ''none'']"
    "SKIP_of (demo_world [js ''SLIDE_DECKS'' \<mapsto> js ''none''] child) = []"
    by (simp_all add: ONLY_of_def SKIP_of_def p pattern_list_None js_simps)
  show ?thesis
    unfolding o by (simp add: eval_discover demo_simps m)
qed

lemma bare_no_slides: "\<not> existsSync (w_fs bare_world) (SLIDES_DIR bare_world)"
  by (simp add: bare_world_def SLIDES_DIR_def join2_def js_simps)

text \<open>
  The four outcomes in the example tree: nothing selected, every build succeeds, no
  directory \<open>slides\<close>, and the build of \<open>old-1\<close> fails.
\<close>

theorem batch_exit_status_witness:
  "batch (demo_world [js ''SLIDE_DECKS'' \<mapsto> js ''none''] (\<lambda>_. Some 0)) = ([], 0) \<and>
   snd (batch (demo_world Map.empty (\<lambda>_. Some 0))) = 0 \<and>
   writes (fst (batch (demo_world Map.empty (\<lambda>_. Some 0)))) = [js ''/w/dist/index.html''] \<and>
   batch bare_world = ([Stderr NoSlidesDir], 1) \<and>
   snd (batch (demo_world Map.empty fail_old)) = 1"
proof -
  let ?N = "demo_world [js ''SLIDE_DECKS'' \<mapsto> js ''none''] (\<lambda>_. Some 0)"
  let ?W = "demo_world Map.empty (\<lambda>_. Some 0)"
  let ?F = "demo_world Map.empty fail_old"
  let ?DS = "[\<lparr>deck_name = js ''talk1'', deck_path = js ''/w/slides/talk1'',
           deck_entry = Some (js ''slides.md'')\<rparr>,
         \<lparr>deck_name = js ''old-1'', deck_path = js ''/w/slides/old-1'',
           deck_entry = Some (js ''b.md'')\<rparr>,
         \<lparr>deck_name = js ''talk2'', deck_path = js ''/w/slides/talk2'',
           deck_entry = Some (js ''slides.md'')\<rparr>]"
  have 1: "batch ?N = ([], 0)"
    using batch_exit_status [of ?N "[]"] demo_none [of "\<lambda>_. Some 0"] by blast
  have d: "discoverDecks ?W (ONLY_of ?W) (SKIP_of ?W) = ([], Return ?DS)"
    by (rule demo_discover_env) simp_all
  have h: "?DS \<noteq> [] \<and> (\<forall>q. w_child ?W q = Some 0) \<and> (\<forall>p. w_mkdir_ok ?W p) \<and>
           (\<forall>p. w_write_ok ?W p)" by simp
  have "snd (batch ?W) = 0 \<and> writes (fst (batch ?W)) = [join2 (DIST_DIR ?W) (js ''index.html'')]"
    using batch_exit_status [of ?W "[]" ?DS] d h by blast
  then have 2: "snd (batch ?W) = 0 \<and> writes (fst (batch ?W)) = [js ''/w/dist/index.html'']"
    by (simp add: DIST_DIR_def join2_def js_simps)
  have 3: "batch bare_world = ([Stderr NoSlidesDir], 1)"
    using batch_exit_status [of bare_world] bare_no_slides by blast
  from arg_cong [OF demo_fail_spawns, of length]
  have len: "length (spawns (fst (batch ?F))) = 2" by simp
  have "map sp_cwd (spawns (fst (batch ?F))) ! 1 = js ''/w/slides/old-1''"
    by (simp add: demo_fail_spawns)
  with len have "sp_cwd (spawns (fst (batch ?F)) ! 1) = js ''/w/slides/old-1''" by simp
  then have "w_child ?F (spawns (fst (batch ?F)) ! 1) \<noteq> Some 0"
    by (simp add: fail_old_def)
  moreover from len have "spawns (fst (batch ?F)) ! 1 \<in> set (spawns (fst (batch ?F)))"
    by (intro nth_mem) simp
  ultimately have 4: "snd (batch ?F) = 1"
    using batch_exit_status [of ?F "[]" "[]" "spawns (fst (batch ?F)) ! 1"] by blast
  from 1 2 3 4 show ?thesis by simp
qed

section \<open>The environment of the child\<close>

lemma run_env_lookup:
  "run_env penv Map.empty k =
     (if k = js ''NODE_OPTIONS''
      then Some (case penv (js ''NODE_OPTIONS'') of
                   None \<Rightarrow> js ''--max_old_space_size=4096''
                 | Some v \<Rightarrow> if v = [] then js ''--max_old_space_size=4096'' else v)
      else penv k)"
  by (simp add: run_env_def js_or_def split: option.splits)

lemma batch_spawn_env:
  assumes "q \<in> set (spawns (fst (batch w)))"
  shows "sp_env q = run_env (w_env w) Map.empty"
proof -
  from batch_spawn_in_loop [OF assms] obtain ds ev1 r1 where
    "build_loop w ds = (ev1, r1)" "spawns (fst (batch w)) = spawns ev1" by blast
  with build_loop_env [of w ds ev1 r1] assms show ?thesis by simp
qed

lemma batch_spawns_nonempty:
  assumes d: "discoverDecks w (ONLY_of w) (SKIP_of w) = (ev0, Return (d # ds))"
    and m: "w_mkdir_ok w (DIST_DIR w)" "w_mkdir_ok w (join2 (DIST_DIR w) (deck_name d))"
    and e: "deck_entry d = Some entry"
  shows "spawns (fst (batch w)) \<noteq> []"
proof -
  obtain ev1 r1 where l: "build_loop w (d # ds) = (ev1, r1)"
    by (cases "build_loop w (d # ds)")
  from l m e have "spawns ev1 \<noteq> []"
    by (auto simp: build_loop_Cons buildDeck_unfold run_unfold split: if_splits
        simp del: build_loop.simps)
  with batch_of_loop(1) [OF d l] m show ?thesis by simp
qed

lemmas eval_hint = spec_memory_hint_def startsWith_def js_def

lemma hint_examples:
  "spec_memory_hint (js ''--max_old_space_size=4096'')"
  "spec_memory_hint (js ''--inspect --max-old-space-size=8192'')"
  "\<not> spec_memory_hint (js ''--inspect'')"
  "\<not> spec_memory_hint []"
  by (simp_all add: eval_hint)

text \<open>
  Claim C9, as the code has it. Every child of a batch run gets the variable
  \<open>NODE_OPTIONS\<close>: the value of the invoking environment when that is defined and not
  empty, whatever it holds, and \<open>--max_old_space_size=4096\<close>, a heap-size setting,
  otherwise; every other variable is handed over as it is.
\<close>

theorem child_env_memory_hint:
  assumes "q \<in> set (spawns (fst (batch w)))"
  shows "sp_env q (js ''NODE_OPTIONS'') =
           Some (case w_env w (js ''NODE_OPTIONS'') of
                   None \<Rightarrow> js ''--max_old_space_size=4096''
                 | Some v \<Rightarrow> if v = [] then js ''--max_old_space_size=4096'' else v) \<and>
         spec_memory_hint (js ''--max_old_space_size=4096'') \<and>
         (\<forall>k. k \<noteq> js ''NODE_OPTIONS'' \<longrightarrow> sp_env q k = w_env w k)"
  using batch_spawn_env [OF assms] hint_examples(1) by (simp add: run_env_lookup)

lemma demo_spawns_nonempty:
  assumes "penv (js ''SLIDE_DECKS'') = None" "penv (js ''SKIP_DECKS'') = None"
  shows "spawns (fst (batch (demo_world penv (\<lambda>_. Some 0)))) \<noteq> []"
  by (rule batch_spawns_nonempty [OF demo_discover_env [OF assms]]) simp_all

text \<open>
  Without \<open>NODE_OPTIONS\<close>, and with \<open>NODE_OPTIONS\<close> empty, the first child gets the
  hint; with a heap-size setting of the invoking environment it gets that value.
\<close>

theorem child_env_memory_hint_witness:
  "sp_env (hd (spawns (fst (batch (demo_world Map.empty (\<lambda>_. Some 0))))))
     (js ''NODE_OPTIONS'') = Some (js ''--max_old_space_size=4096'') \<and>
   sp_env (hd (spawns (fst (batch (demo_world [js ''NODE_OPTIONS'' \<mapsto> []] (\<lambda>_. Some 0))))))
     (js ''NODE_OPTIONS'') = Some (js ''--max_old_space_size=4096'') \<and>
   sp_env (hd (spawns (fst (batch
       (demo_world [js ''NODE_OPTIONS'' \<mapsto> js ''--max-old-space-size=8192''] (\<lambda>_. Some 0))))))
     (js ''NODE_OPTIONS'') = Some (js ''--max-old-space-size=8192'') \<and>
   spec_memory_hint (js ''--max_old_space_size=4096'')"
proof -
  let ?W = "demo_world Map.empty (\<lambda>_. Some 0)"
  let ?E = "demo_world [js ''NODE_OPTIONS'' \<mapsto> []] (\<lambda>_. Some 0)"
  let ?V = "demo_world [js ''NODE_OPTIONS'' \<mapsto> js ''--max-old-space-size=8192''] (\<lambda>_. Some 0)"
  have "spawns (fst (batch ?W)) \<noteq> []" by (rule demo_spawns_nonempty) simp_all
  then have 1: "hd (spawns (fst (batch ?W))) \<in> set (spawns (fst (batch ?W)))" by simp
  have "spawns (fst (batch ?E)) \<noteq> []"
    by (rule demo_spawns_nonempty) (simp_all add: js_simps)
  then have 2: "hd (spawns (fst (batch ?E))) \<in> set (spawns (fst (batch ?E)))" by simp
  have "spawns (fst (batch ?V)) \<noteq> []"
    by (rule demo_spawns_nonempty) (simp_all add: js_simps)
  then have 3: "hd (spawns (fst (batch ?V))) \<in> set (spawns (fst (batch ?V)))" by simp
  from child_env_memory_hint [OF 1] child_env_memory_hint [OF 2] child_env_memory_hint [OF 3]
  show ?thesis
    by (simp add: js_simps)
qed

text \<open>
  Claim C9 as stated fails when the invoking environment defines \<open>NODE_OPTIONS\<close> without
  a heap-size setting: with \<open>NODE_OPTIONS=--inspect\<close> the invoking environment holds no
  memory-limit hint, and the child gets \<open>--inspect\<close>, so it holds none either.
\<close>

theorem child_env_inspect_counterexample:
  "w_env (demo_world [js ''NODE_OPTIONS'' \<mapsto> js ''--inspect''] (\<lambda>_. Some 0)) (js ''NODE_OPTIONS'')
     = Some (js ''--inspect'') \<and>
   \<not> spec_memory_hint (js ''--inspect'') \<and>
   spawns (fst (batch
       (demo_world [js ''NODE_OPTIONS'' \<mapsto> js ''--inspect''] (\<lambda>_. Some 0)))) \<noteq> [] \<and>
   sp_env (hd (spawns (fst (batch
       (demo_world [js ''NODE_OPTIONS'' \<mapsto> js ''--inspect''] (\<lambda>_. Some 0))))))
     (js ''NODE_OPTIONS'') = Some (js ''--inspect'')"
proof -
  let ?E = "demo_world [js ''NODE_OPTIONS'' \<mapsto> js ''--inspect''] (\<lambda>_. Some 0)"
  have n: "spawns (fst (batch ?E)) \<noteq> []"
    by (rule demo_spawns_nonempty) (simp_all add: js_simps)
  then have "hd (spawns (fst (batch ?E))) \<in> set (spawns (fst (batch ?E)))" by simp
  from batch_spawn_env [OF this] n hint_examples(3) show ?thesis
    by (simp add: run_env_lookup js_simps)
qed

section \<open>Properties of the dev script\<close>

lemma startsWith_nonempty: "startsWith name (js ''.'') \<or> startsWith name (js ''_'') \<Longrightarrow> name \<noteq> []"
  by (auto simp: startsWith_def js_def)

text \<open>
  Claim C10. A directory whose name starts with \<open>.\<close> or \<open>_\<close> is never among the
  discovered decks of the batch script, whatever the patterns; the dev script, given that
  name as its argument, resolves the entry of the directory and starts the renderer on it.
\<close>

theorem dev_accepts_hidden_name:
  assumes "startsWith name (js ''.'') \<or> startsWith name (js ''_'')"
    and "existsSync (w_fs w) (join2 (SLIDES_DIR w) name)"
    and "dev_entry (w_fs w) (join2 (SLIDES_DIR w) name) = Inr (Some entry)"
  shows "(\<forall>ev ds. discoverDecks w ONLY SKIP = (ev, Return ds) \<longrightarrow> name \<notin> deck_name ` set ds) \<and>
         dev w (Some name) =
           ([Spawn (dev_req w (join2 (SLIDES_DIR w) name) entry)],
            process_exit (w_child w (dev_req w (join2 (SLIDES_DIR w) name) entry)))"
proof -
  from assms(1) have ne: "name \<noteq> []" by (rule startsWith_nonempty)
  from assms(1) have "\<not> spec_candidate (w_fs w) (SLIDES_DIR w) name"
    by (auto simp: spec_candidate_def)
  then have "\<forall>ev ds. discoverDecks w ONLY SKIP = (ev, Return ds) \<longrightarrow> name \<notin> deck_name ` set ds"
    using not_discovered by blast
  moreover from ne assms(2,3) have "dev w (Some name) =
           ([Spawn (dev_req w (join2 (SLIDES_DIR w) name) entry)],
            process_exit (w_child w (dev_req w (join2 (SLIDES_DIR w) name) entry)))"
    using dev_resolved [of "Some name" w name] by simp
  ultimately show ?thesis by simp
qed

lemma demo_drafts:
  "startsWith (js ''_drafts'') (js ''_'')"
  "existsSync (w_fs (demo_world penv child)) (join2 (SLIDES_DIR (demo_world penv child)) (js ''_drafts''))"
  "dev_entry (w_fs (demo_world penv child)) (join2 (SLIDES_DIR (demo_world penv child)) (js ''_drafts''))
     = Inr (Some (js ''deck.md''))"
  by (simp_all add: startsWith_def dev_entry_findEntry findEntry_def candidates_def demo_simps)

text \<open>
  In the example tree, \<open>_drafts\<close> holds \<open>deck.md\<close>: it is not among the three discovered
  decks, and the dev script starts the renderer on \<open>/w/slides/_drafts/deck.md\<close>.
\<close>

theorem dev_accepts_hidden_name_witness:
  "snd (discoverDecks (demo_world Map.empty (\<lambda>_. Some 0)) [] []) =
     Return
        [\<lparr>deck_name = js ''talk1'', deck_path = js ''/w/slides/talk1'',
           deck_entry = Some (js ''slides.md'')\<rparr>,
         \<lparr>deck_name = js ''old-1'', deck_path = js ''/w/slides/old-1'',
           deck_entry = Some (js ''b.md'')\<rparr>,
         \<lparr>deck_name = js ''talk2'', deck_path = js ''/w/slides/talk2'',
           deck_entry = Some (js ''slides.md'')\<rparr>] \<and>
   map sp_args (spawns (fst (dev (demo_world Map.empty (\<lambda>_. Some 0)) (Some (js ''_drafts''))))) =
     [[js ''-y'', js ''slidev'', js ''/w/slides/_drafts/deck.md'']]"
proof -
  let ?W = "demo_world Map.empty (\<lambda>_. Some 0)"
  from dev_accepts_hidden_name [of "js ''_drafts''" ?W "js ''deck.md''" "[]" "[]"] demo_drafts
  have "dev ?W (Some (js ''_drafts'')) =
           ([Spawn (dev_req ?W (join2 (SLIDES_DIR ?W) (js ''_drafts'')) (js ''deck.md''))],
            process_exit (w_child ?W (dev_req ?W (join2 (SLIDES_DIR ?W) (js ''_drafts'')) (js ''deck.md''))))"
    by blast
  then have "map sp_args (spawns (fst (dev ?W (Some (js ''_drafts''))))) =
     [[js ''-y'', js ''slidev'', js ''/w/slides/_drafts/deck.md'']]"
    by (simp add: dev_req_def SLIDES_DIR_def join2_def js_simps)
  then show ?thesis by (simp add: demo_discover)
qed

text \<open>
  Claim C8. The dev script ends with status 1, one diagnostic and no child in each of
  these cases: there is neither an argument nor a value of \<open>DECK\<close> (absent or empty), the
  directory of the deck does not exist, and the directory holds no entry (none of the four
  canonical files exists and no name of its listing ends in \<open>.md\<close>).
\<close>

theorem dev_configuration_errors:
  "((argv2 = None \<or> argv2 = Some []) \<and>
    (w_env w (js ''DECK'') = None \<or> w_env w (js ''DECK'') = Some []) \<longrightarrow>
      dev w argv2 = ([Stderr NoDeckName], 1)) \<and>
   (js_or argv2 (w_env w (js ''DECK'')) = Some name \<and> name \<noteq> [] \<and>
    \<not> existsSync (w_fs w) (join2 (SLIDES_DIR w) name) \<longrightarrow>
      dev w argv2 = ([Stderr (DeckNotFound (join2 (SLIDES_DIR w) name))], 1)) \<and>
   (js_or argv2 (w_env w (js ''DECK'')) = Some name \<and> name \<noteq> [] \<and>
    existsSync (w_fs w) (join2 (SLIDES_DIR w) name) \<and>
    (\<forall>c\<in>set candidates. \<not> existsSync (w_fs w) (join2 (join2 (SLIDES_DIR w) name) c)) \<and>
    readdirSync (w_fs w) (join2 (SLIDES_DIR w) name) = Some files \<and>
    (\<forall>f\<in>set files. \<not> endsWith f (js ''.md'')) \<longrightarrow>
      dev w argv2 = ([Stderr (NoEntry (join2 (SLIDES_DIR w) name))], 1))"
proof -
  have c1: "dev w argv2 = ([Stderr NoDeckName], 1)"
    if "(argv2 = None \<or> argv2 = Some []) \<and>
        (w_env w (js ''DECK'') = None \<or> w_env w (js ''DECK'') = Some [])"
    using that by (auto simp: dev_def js_or_def)
  have c2: "dev w argv2 = ([Stderr (DeckNotFound (join2 (SLIDES_DIR w) name))], 1)"
    if "js_or argv2 (w_env w (js ''DECK'')) = Some name \<and> name \<noteq> [] \<and>
        \<not> existsSync (w_fs w) (join2 (SLIDES_DIR w) name)"
    using that by (simp add: dev_def Let_def)
  have c3: "dev w argv2 = ([Stderr (NoEntry (join2 (SLIDES_DIR w) name))], 1)"
    if a: "js_or argv2 (w_env w (js ''DECK'')) = Some name \<and> name \<noteq> [] \<and>
      existsSync (w_fs w) (join2 (SLIDES_DIR w) name) \<and>
      (\<forall>c\<in>set candidates. \<not> existsSync (w_fs w) (join2 (join2 (SLIDES_DIR w) name) c)) \<and>
      readdirSync (w_fs w) (join2 (SLIDES_DIR w) name) = Some files \<and>
      (\<forall>f\<in>set files. \<not> endsWith f (js ''.md''))"
  proof -
    from a have "find (\<lambda>c. existsSync (w_fs w) (join2 (join2 (SLIDES_DIR w) name) c)) candidates = None"
      "find (\<lambda>f. endsWith f (js ''.md'')) files = None"
      by (simp_all add: find_None_iff)
    with a have "dev_entry (w_fs w) (join2 (SLIDES_DIR w) name) = Inr None"
      by (simp add: dev_entry_findEntry findEntry_find)
    with a show ?thesis using dev_resolved [of argv2 w name] by simp
  qed
  from c1 c2 c3 show ?thesis by blast
qed

text \<open>
  In the example tree: no name at all, the name \<open>nope\<close> of no directory, and the
  directory \<open>empty\<close>.
\<close>

theorem dev_configuration_errors_witness:
  "dev (demo_world Map.empty (\<lambda>_. Some 0)) None = ([Stderr NoDeckName], 1) \<and>
   dev (demo_world Map.empty (\<lambda>_. Some 0)) (Some (js ''nope'')) =
     ([Stderr (DeckNotFound (js ''/w/slides/nope''))], 1) \<and>
   dev (demo_world [js ''DECK'' \<mapsto> js ''empty''] (\<lambda>_. Some 0)) None =
     ([Stderr (NoEntry (js ''/w/slides/empty''))], 1)"
proof -
  let ?W = "demo_world Map.empty (\<lambda>_. Some 0)"
  let ?D = "demo_world [js ''DECK'' \<mapsto> js ''empty''] (\<lambda>_. Some 0)"
  have 1: "dev ?W None = ([Stderr NoDeckName], 1)"
    using dev_configuration_errors [of None ?W] by simp
  have "js_or (Some (js ''nope'')) (w_env ?W (js ''DECK'')) = Some (js ''nope'') \<and>
        js ''nope'' \<noteq> [] \<and> \<not> existsSync (w_fs ?W) (join2 (SLIDES_DIR ?W) (js ''nope''))"
    by (simp add: js_or_def demo_simps)
  then have "dev ?W (Some (js ''nope'')) =
       ([Stderr (DeckNotFound (join2 (SLIDES_DIR ?W) (js ''nope'')))], 1)"
    using dev_configuration_errors [of "Some (js ''nope'')" ?W "js ''nope''"] by blast
  then have 2: "dev ?W (Some (js ''nope'')) = ([Stderr (DeckNotFound (js ''/w/slides/nope''))], 1)"
    by (simp add: SLIDES_DIR_def join2_def js_simps)
  have "js_or None (w_env ?D (js ''DECK'')) = Some (js ''empty'') \<and> js ''empty'' \<noteq> [] \<and>
      existsSync (w_fs ?D) (join2 (SLIDES_DIR ?D) (js ''empty'')) \<and>
      (\<forall>c\<in>set candidates. \<not> existsSync (w_fs ?D) (join2 (join2 (SLIDES_DIR ?D) (js ''empty'')) c)) \<and>
      readdirSync (w_fs ?D) (join2 (SLIDES_DIR ?D) (js ''empty'')) = Some [js ''readme.txt''] \<and>
      (\<forall>f\<in>set [js ''readme.txt'']. \<not> endsWith f (js ''.md''))"
    by (simp add: js_or_def candidates_def endsWith_def demo_simps)
  then have "dev ?D None = ([Stderr (NoEntry (join2 (SLIDES_DIR ?D) (js ''empty'')))], 1)"
    using dev_configuration_errors [of None ?D "js ''empty''" "[js ''readme.txt'']"] by blast
  then have 3: "dev ?D None = ([Stderr (NoEntry (js ''/w/slides/empty''))], 1)"
    by (simp add: SLIDES_DIR_def join2_def js_simps)
  from 1 2 3 show ?thesis by simp
qed

text \<open>
  A child that closes with a numeric code: the dev script ends with that code.
\<close>

lemma dev_mirrors_code:
  assumes "js_or argv2 (w_env w (js ''DECK'')) = Some name" "name \<noteq> []"
    and "existsSync (w_fs w) (join2 (SLIDES_DIR w) name)"
    and "dev_entry (w_fs w) (join2 (SLIDES_DIR w) name) = Inr (Some entry)"
    and "w_child w (dev_req w (join2 (SLIDES_DIR w) name) entry) = Some n"
  shows "snd (dev w argv2) = n"
  using assms by (simp add: dev_resolved process_exit_def)

text \<open>
  Claim C5 fails on the code. The child of the dev script is ended by a signal: the
  listener of \<open>close\<close> receives \<open>null\<close> and calls \<open>process.exit(null)\<close>, and the dev
  script ends with status 0, the status of success. (The batch script treats the same
  \<open>null\<close> as a failure: lemma \<open>run_null_rejects\<close>.)
\<close>

theorem dev_signal_exit_status:
  "map sp_args (spawns (fst (dev (demo_world Map.empty (\<lambda>_. None)) (Some (js ''talk1''))))) =
     [[js ''-y'', js ''slidev'', js ''/w/slides/talk1/slides.md'']] \<and>
   snd (dev (demo_world Map.empty (\<lambda>_. None)) (Some (js ''talk1''))) = 0"
proof -
  let ?W = "demo_world Map.empty (\<lambda>_. None)"
  have "existsSync (w_fs ?W) (join2 (SLIDES_DIR ?W) (js ''talk1''))"
    "dev_entry (w_fs ?W) (join2 (SLIDES_DIR ?W) (js ''talk1'')) = Inr (Some (js ''slides.md''))"
    by (simp_all add: dev_entry_findEntry findEntry_def candidates_def demo_simps)
  then have "dev ?W (Some (js ''talk1'')) =
     ([Spawn (dev_req ?W (join2 (SLIDES_DIR ?W) (js ''talk1'')) (js ''slides.md''))],
      process_exit None)"
    using dev_resolved [of "Some (js ''talk1'')" ?W "js ''talk1''"]
    by (simp add: js_simps)
  then show ?thesis
    by (simp add: dev_req_def process_exit_def SLIDES_DIR_def join2_def js_simps)
qed

lemma run_null_rejects:
  "w_child w (run_req w cmd args cwd ex) = None \<Longrightarrow>
     snd (run w cmd args cwd ex) = Throw (SpawnFailed cmd args None)"
  by (simp add: run_unfold)

section \<open>Properties of the index\<close>

lemmas eval_title =
  extract_title_def title_rx_def h1_rx_def exec_def trim_def js_or_def is_white_space_def
  is_line_terminator_def js_def

lemmas eval_spec_title =
  spec_title_def spec_title_line_def spec_h1_line_def startsWith_def trim_def
  is_white_space_def is_line_terminator_def js_def

text \<open>A failing read leaves the name of the directory as the title.\<close>

lemma deck_title_read_failure:
  "deck_entry d = Some entry \<Longrightarrow> readFileSync fs (join2 (deck_path d) entry) = None \<Longrightarrow>
     deck_title fs d = deck_name d"
  by (simp add: deck_title_def)

text \<open>
  The index is written whenever the directory and the file can be written, whatever the
  reads of the entry documents do.
\<close>

lemma generateIndex_completes:
  "w_mkdir_ok w (DIST_DIR w) \<Longrightarrow> w_write_ok w (join2 (DIST_DIR w) (js ''index.html'')) \<Longrightarrow>
     generateIndex w decks =
       ([Mkdir (DIST_DIR w),
         WriteFile (join2 (DIST_DIR w) (js ''index.html'')) (index_html (w_fs w) decks)],
        Return ())"
  by (simp add: generateIndex_cases)

text \<open>Where the two readings agree: a title line with a value, and a heading.\<close>

lemma extract_title_examples:
  "extract_title (js ''title: My Talk'' @ [10] @ js ''# Intro'') (js ''talk1'') = js ''My Talk''"
  "extract_title (js ''hello'' @ [10] @ js ''# Intro  '' @ [10] @ js ''# B'') (js ''talk1'') = js ''Intro''"
  "extract_title (js ''hello'' @ [10] @ js ''## Intro'') (js ''talk1'') = js ''talk1''"
  by (simp_all add: eval_title)

lemma spec_title_examples:
  "spec_title (js ''title: My Talk'' @ [10] @ js ''# Intro'') (js ''talk1'') = js ''My Talk''"
  "spec_title (js ''hello'' @ [10] @ js ''# Intro  '' @ [10] @ js ''# B'') (js ''talk1'') = js ''Intro''"
  "spec_title (js ''hello'' @ [10] @ js ''## Intro'') (js ''talk1'') = js ''talk1''"
  by (simp_all add: eval_spec_title)

text \<open>
  Claim C7 fails on the code. The entry document of \<open>talk2\<close> is a front matter with an
  empty \<open>title:\<close> followed by the heading \<open># Intro\<close>. No line of it matches
  \<open>title: <value>\<close>, so the title of the claim is the heading, \<open>Intro\<close>. In the code,
  \<open>\s*\<close> after \<open>title:\<close> runs over the end of the line, the group captures the next
  line, and the title in the index is \<open>---\<close>.
\<close>

theorem title_spills_over_line_end:
  "readFileSync demo_fs (js ''/w/slides/talk2/slides.md'') =
     Some (js ''---'' @ [10] @ js ''title:'' @ [10] @ js ''---'' @ [10] @ js ''# Intro'' @ [10]) \<and>
   deck_title demo_fs \<lparr>deck_name = js ''talk2'', deck_path = js ''/w/slides/talk2'',
                        deck_entry = Some (js ''slides.md'')\<rparr> = js ''---'' \<and>
   spec_title (js ''---'' @ [10] @ js ''title:'' @ [10] @ js ''---'' @ [10] @ js ''# Intro'' @ [10])
     (js ''talk2'') = js ''Intro''"
proof -
  have r: "readFileSync demo_fs (join2 (js ''/w/slides/talk2'') (js ''slides.md'')) =
     Some (js ''---'' @ [10] @ js ''title:'' @ [10] @ js ''---'' @ [10] @ js ''# Intro'' @ [10])"
    by (simp add: demo_simps)
  have j: "join2 (js ''/w/slides/talk2'') (js ''slides.md'') = js ''/w/slides/talk2/slides.md''"
    by (simp add: join2_def js_simps)
  have e: "extract_title
      (js ''---'' @ [10] @ js ''title:'' @ [10] @ js ''---'' @ [10] @ js ''# Intro'' @ [10])
      (js ''talk2'') = js ''---''"
    by (simp add: eval_title)
  have s: "spec_title
      (js ''---'' @ [10] @ js ''title:'' @ [10] @ js ''---'' @ [10] @ js ''# Intro'' @ [10])
      (js ''talk2'') = js ''Intro''"
    by (simp add: eval_spec_title)
  from r e have "deck_title demo_fs \<lparr>deck_name = js ''talk2'', deck_path = js ''/w/slides/talk2'',
                        deck_entry = Some (js ''slides.md'')\<rparr> = js ''---''"
    by (simp add: deck_title_def)
  with r j s show ?thesis by simp
qed

text \<open>The same happens after a heading mark alone on its line.\<close>

lemma heading_spills_over_line_end:
  "extract_title (js ''#'' @ [10] @ js ''text'' @ [10] @ js ''# Real'') (js ''talk'') = js ''text''"
  by (simp add: eval_title)

lemma heading_by_lines:
  "spec_title (js ''#'' @ [10] @ js ''text'' @ [10] @ js ''# Real'') (js ''talk'') = js ''Real''"
  by (simp add: eval_spec_title)

subsection \<open>Agreement with the reading line by line\<close>

lemma lt_ws: "is_line_terminator c \<Longrightarrow> is_white_space c"
  by (simp add: is_white_space_def)

lemma foldl_push_False [simp]: "foldl push (False, g) w = (False, g)"
  by (induction w) auto

lemma foldl_push_True [simp]: "foldl push (True, g) w = (True, g @ w)"
  by (induction w arbitrary: g) auto

lemma last_or_simps [simp]:
  "last_or prev [] = prev" "last_or prev (x # w) = last_or (Some x) w"
  by (simp_all add: last_or_def)

text \<open>
  A greedy star that has taken a maximal run and whose continuation succeeds there
  returns that result.
\<close>

lemma star_max:
  assumes "\<forall>x\<in>set w. in_cls cl x" "r = [] \<or> \<not> in_cls cl (hd r)"
    and "rx_run ml k (last_or prev w) r (foldl push cap w) = Some g"
  shows "rx_run ml (Star cl # k) prev (w @ r) cap = Some g"
  using assms
proof (induction w arbitrary: prev cap)
  case Nil
  then show ?case by (cases r) auto
next
  case (Cons x w)
  from Cons.prems have "rx_run ml k (last_or (Some x) w) r (foldl push (push cap x) w) = Some g"
    by simp
  with Cons have "rx_run ml (Star cl # k) (Some x) (w @ r) (push cap x) = Some g"
    by auto
  with Cons.prems(1) show ?case by simp
qed

text \<open>
  A greedy star before a literal character outside its class takes the maximal run: at
  every shorter run the literal meets a character of the class.
\<close>

lemma star_lit:
  assumes "\<not> in_cls cl c"
  shows "rx_run ml (Star cl # Char c # k) prev s cap =
           rx_run ml (Char c # k) (last_or prev (takeWhile (in_cls cl) s))
             (dropWhile (in_cls cl) s) (foldl push cap (takeWhile (in_cls cl) s))"
proof (induction s arbitrary: prev cap)
  case Nil
  show ?case by simp
next
  case (Cons x xs)
  show ?case
  proof (cases "in_cls cl x")
    case True
    with assms have "x \<noteq> c" by auto
    with True Cons [of "Some x" "push cap x"] show ?thesis
      by (auto split: option.splits)
  next
    case False
    then show ?thesis by simp
  qed
qed

text \<open>\<open>\s*$\<close> at the end of a line, with the group closed.\<close>

lemma eol_value: "rx_run ml [Eol] prev r (False, g) = Some y \<Longrightarrow> y = g"
  by (simp split: if_splits)

lemma star_eol_value:
  "rx_run ml [Star cl, Eol] prev r (False, g) = Some y \<Longrightarrow> y = g"
proof (induction r arbitrary: prev)
  case Nil
  then show ?case by (simp split: if_splits)
next
  case (Cons x xs)
  show ?case
  proof (cases "in_cls cl x")
    case True
    show ?thesis
    proof (cases "rx_run ml [Star cl, Eol] (Some x) xs (False, g)")
      case None
      with Cons.prems True have "rx_run ml [Eol] prev (x # xs) (False, g) = Some y"
        by (simp del: rx_run.simps(6) add: rx_run.simps(3) [of ml cl "[Eol]"])
      then show ?thesis by (rule eol_value)
    next
      case (Some y')
      with Cons.prems True have "y = y'"
        by (simp del: rx_run.simps(6) add: rx_run.simps(3) [of ml cl "[Eol]"])
      with Cons.IH Some show ?thesis by blast
    qed
  next
    case False
    with Cons.prems have "rx_run ml [Eol] prev (x # xs) (False, g) = Some y"
      by (simp del: rx_run.simps(6) add: rx_run.simps(3) [of ml cl "[Eol]"])
    then show ?thesis by (rule eol_value)
  qed
qed

lemma star_eol:
  assumes "r = [] \<or> is_line_terminator (hd r)"
  shows "rx_run True [Star Space, Eol] prev r (False, g) = Some g"
proof -
  from assms have "rx_run True [Eol] (last_or prev []) r (foldl push (False, g) []) \<noteq> None"
    by (cases r) auto
  then have "rx_run True [Star Space, Eol] prev r (False, g) \<noteq> None"
    unfolding rx_run_star by (intro exI [of _ "[]"] exI [of _ r]) simp
  then obtain y where "rx_run True [Star Space, Eol] prev r (False, g) = Some y" by auto
  with star_eol_value show ?thesis by blast
qed
lemma rx_run_Bol_ml [simp]:
  "rx_run True (Bol # k) prev rest cap = (if at_bol prev then rx_run True k prev rest cap else None)"
  by (cases prev) (simp_all add: at_bol_def)

lemma rx_run_Eol_ml [simp]:
  "rx_run True (Eol # k) prev rest cap =
     (if rest = [] \<or> is_line_terminator (hd rest) then rx_run True k prev rest cap else None)"
  by (cases rest) simp_all

declare rx_run.simps(5) [simp del] rx_run.simps(6) [simp del]

lemma trim_dropWhile: "trim (dropWhile is_white_space s) = trim s"
  by (simp add: trim_def)

lemma trim_ws_append: "\<forall>x\<in>set w. is_white_space x \<Longrightarrow> trim (w @ s) = trim s"
  by (induction w) (simp_all add: trim_def)

lemma trim_Nil_iff: "(trim s = []) = (dropWhile is_white_space s = [])"
proof
  define d where "d = dropWhile is_white_space s"
  assume "trim s = []"
  then have "dropWhile is_white_space (rev d) = []"
    by (simp add: trim_def d_def)
  then have "\<forall>x\<in>set (rev d). is_white_space x"
    by (simp only: dropWhile_eq_Nil_conv)
  then have a: "\<forall>x\<in>set d. is_white_space x" by simp
  have "d = []"
  proof (rule ccontr)
    assume "d \<noteq> []"
    then have "\<not> is_white_space (hd d)" "hd d \<in> set d"
      unfolding d_def by (simp_all add: hd_dropWhile)
    with a show False by blast
  qed
  then show "dropWhile is_white_space s = []" by (simp add: d_def)
next
  assume a: "dropWhile is_white_space s = []"
  show "trim s = []" unfolding trim_def a by simp
qed

text \<open>The tail of both expressions: the group takes the rest of the line.\<close>

lemma group_to_eol:
  assumes "\<not> is_line_terminator y" "\<forall>x\<in>set v. \<not> is_line_terminator x"
    and "r = [] \<or> is_line_terminator (hd r)"
  shows "rx_run True [GroupOpen, Plus Dot, GroupClose, Eol] prev (y # v @ r) cap = Some (y # v)"
    and "rx_run True [GroupOpen, Plus Dot, GroupClose, Star Space, Eol] prev (y # v @ r) cap
           = Some (y # v)"
proof -
  have 1: "rx_run True [GroupClose, Eol] (last_or (Some y) v) r (foldl push (True, [y]) v)
             = Some (y # v)"
    using assms(3) by simp
  have d: "\<forall>x\<in>set v. in_cls Dot x" "r = [] \<or> \<not> in_cls Dot (hd r)"
    using assms(2,3) by auto
  from star_max [OF d 1] assms(1)
  show "rx_run True [GroupOpen, Plus Dot, GroupClose, Eol] prev (y # v @ r) cap = Some (y # v)"
    by simp
  have 2: "rx_run True [GroupClose, Star Space, Eol] (last_or (Some y) v) r
             (foldl push (True, [y]) v) = Some (y # v)"
    using star_eol [OF assms(3)] by simp
  from star_max [OF d 2] assms(1)
  show "rx_run True [GroupOpen, Plus Dot, GroupClose, Star Space, Eol] prev (y # v @ r) cap
           = Some (y # v)"
    by simp
qed

text \<open>White space, then the group to the end of the line.\<close>

lemma ws_group_to_eol:
  assumes "\<forall>x\<in>set w. is_white_space x" "\<not> is_white_space y"
    and "\<forall>x\<in>set v. \<not> is_line_terminator x" "r = [] \<or> is_line_terminator (hd r)"
  shows "rx_run True [Star Space, GroupOpen, Plus Dot, GroupClose, Eol] prev (w @ y # v @ r) cap
           = Some (y # v)"
    and "rx_run True [Star Space, GroupOpen, Plus Dot, GroupClose, Star Space, Eol] prev
           (w @ y # v @ r) cap = Some (y # v)"
proof -
  from assms(2) have y: "\<not> is_line_terminator y" using lt_ws by blast
  have s: "\<forall>x\<in>set w. in_cls Space x" "y # v @ r = [] \<or> \<not> in_cls Space (hd (y # v @ r))"
    using assms(1,2) by auto
  from star_max [OF s group_to_eol(1) [OF y assms(3,4)]]
  show "rx_run True [Star Space, GroupOpen, Plus Dot, GroupClose, Eol] prev (w @ y # v @ r) cap
           = Some (y # v)" .
  from star_max [OF s group_to_eol(2) [OF y assms(3,4)]]
  show "rx_run True [Star Space, GroupOpen, Plus Dot, GroupClose, Star Space, Eol] prev
           (w @ y # v @ r) cap = Some (y # v)" .
qed
lemma in_cls_Space: "in_cls Space = is_white_space"
  by (rule ext) simp

lemma lt_not_35: "is_line_terminator c \<Longrightarrow> c \<noteq> 35"
  by (auto simp: is_line_terminator_def)

lemma title_no_lt: "c \<in> set (js ''title:'') \<Longrightarrow> \<not> is_line_terminator c"
  by (auto simp: js_def is_line_terminator_def)

lemma split_dropWhile:
  "dropWhile is_white_space u \<noteq> [] \<Longrightarrow>
     \<exists>w y v. u = w @ y # v \<and> (\<forall>x\<in>set w. is_white_space x) \<and> \<not> is_white_space y \<and>
       dropWhile is_white_space u = y # v"
proof -
  assume a: "dropWhile is_white_space u \<noteq> []"
  then obtain y v where d: "dropWhile is_white_space u = y # v"
    by (cases "dropWhile is_white_space u") auto
  then have "\<not> is_white_space y" using hd_dropWhile [of is_white_space u] a by auto
  moreover have "u = takeWhile is_white_space u @ y # v"
    using takeWhile_dropWhile_id [of is_white_space u] d by simp
  moreover have "\<forall>x\<in>set (takeWhile is_white_space u). is_white_space x"
    by (auto dest: set_takeWhileD)
  ultimately show ?thesis using d by blast
qed

text \<open>The heading expression at the start of a line.\<close>

lemma h1_line:
  assumes "at_bol prev" "\<forall>x\<in>set l. \<not> is_line_terminator x"
    and "r = [] \<or> is_line_terminator (hd r)" "valued_line l"
  shows "map_option trim (rx_run True h1_rx prev (l @ r) (False, [])) = spec_h1_line l"
proof (cases l)
  case Nil
  with assms(1,3) show ?thesis
    by (cases r) (auto simp: h1_rx_def spec_h1_line_def dest: lt_not_35)
next
  case (Cons c l')
  show ?thesis
  proof (cases "c = 35")
    case False
    with Cons assms(1) show ?thesis by (simp add: h1_rx_def spec_h1_line_def)
  next
    case c: True
    show ?thesis
    proof (cases l')
      case Nil
      with Cons c assms(4) show ?thesis
        by (simp add: valued_line_def heading_like_def spec_h1_line_def)
    next
      case l': (Cons x l'')
      show ?thesis
      proof (cases "is_white_space x")
        case False
        with Cons c l' assms(1) show ?thesis by (simp add: h1_rx_def spec_h1_line_def)
      next
        case True
        with Cons c l' assms(4) have v: "trim l' \<noteq> []" "spec_h1_line l = Some (trim l')"
          by (auto simp: valued_line_def heading_like_def spec_h1_line_def split: if_splits)
        then have "dropWhile is_white_space l' \<noteq> []" by (simp add: trim_Nil_iff)
        from split_dropWhile [OF this] obtain w y v where
          w: "l' = w @ y # v" "\<forall>x\<in>set w. is_white_space x" "\<not> is_white_space y"
          "dropWhile is_white_space l' = y # v" by blast
        from w(1,2,3) l' True obtain w' where w': "w = x # w'"
          by (cases w) auto
        from w(1) Cons assms(2) have nl: "\<forall>x\<in>set v. \<not> is_line_terminator x" by auto
        from w' w(2) have "\<forall>x\<in>set w'. is_white_space x" by simp
        from ws_group_to_eol(1) [OF this w(3) nl assms(3)]
        have "rx_run True [Star Space, GroupOpen, Plus Dot, GroupClose, Eol] (Some x)
                (w' @ y # v @ r) (False, []) = Some (y # v)" .
        with Cons c w(1) w' True assms(1)
        have "rx_run True h1_rx prev (l @ r) (False, []) = Some (y # v)"
          by (simp add: h1_rx_def)
        moreover have "trim (y # v) = trim l'"
          using w(4) trim_dropWhile [of l'] by simp
        ultimately show ?thesis using v(2) by simp
      qed
    qed
  qed
qed

text \<open>The title expression at the start of a line: white space, then \<open>title:\<close>.\<close>

lemma title_at:
  assumes "at_bol prev"
  shows "rx_run True title_rx prev s (False, []) =
           (if take 6 (dropWhile is_white_space s) = js ''title:''
            then rx_run True [Star Space, GroupOpen, Plus Dot, GroupClose, Star Space, Eol]
                   (Some 58) (drop 6 (dropWhile is_white_space s)) (False, [])
            else None)"
proof -
  let ?k = "[Star Space, GroupOpen, Plus Dot, GroupClose, Star Space, Eol]"
  have t: "title_rx = Bol # Star Space # Char 116 # (map Char (js ''itle:'') @ ?k)"
    by (simp add: title_rx_def js_def)
  have c: "Char 116 # (map Char (js ''itle:'') @ ?k) = map Char (js ''title:'') @ ?k"
    by (simp add: js_def)
  have n: "\<not> in_cls Space 116" by (simp add: is_white_space_def is_line_terminator_def)
  have l: "length (js ''title:'') = 6" "last_or p (js ''title:'') = Some 58" for p
    by (simp_all add: js_def last_or_def)
  have "rx_run True title_rx prev s (False, []) =
          rx_run True (Star Space # Char 116 # (map Char (js ''itle:'') @ ?k)) prev s (False, [])"
    using assms by (simp add: t del: rx_run.simps)
  also have "\<dots> = rx_run True (Char 116 # (map Char (js ''itle:'') @ ?k))
          (last_or prev (takeWhile is_white_space s)) (dropWhile is_white_space s) (False, [])"
    by (simp only: star_lit [OF n] in_cls_Space foldl_push_False)
  also have "\<dots> = rx_run True (map Char (js ''title:'') @ ?k)
          (last_or prev (takeWhile is_white_space s)) (dropWhile is_white_space s) (False, [])"
    by (simp only: c)
  also have "\<dots> = (if take 6 (dropWhile is_white_space s) = js ''title:''
            then rx_run True ?k (Some 58) (drop 6 (dropWhile is_white_space s)) (False, [])
            else None)"
    by (simp only: rx_run_chars l foldl_push_False)
  finally show ?thesis .
qed

lemma title_prefix_line:
  assumes "r = [] \<or> is_line_terminator (hd r)"
  shows "(take 6 (t @ r) = js ''title:'') = (take 6 t = js ''title:'')"
proof (cases "6 \<le> length t")
  case True
  then show ?thesis by simp
next
  case False
  have "take 6 t \<noteq> js ''title:''"
  proof
    assume "take 6 t = js ''title:''"
    then have "length (take 6 t) = 6" by (simp add: js_def)
    with False show False by simp
  qed
  moreover have "take 6 (t @ r) \<noteq> js ''title:''"
  proof
    assume a: "take 6 (t @ r) = js ''title:''"
    show False
    proof (cases r)
      case Nil
      with a have "length (take 6 t) = 6" by (simp add: js_def)
      with False show False by simp
    next
      case (Cons c r')
      with assms have lt: "is_line_terminator c" by simp
      from False obtain n where "6 - length t = Suc n"
        by (cases "6 - length t") auto
      with Cons have "c \<in> set (take 6 (t @ r))" by simp
      with a title_no_lt lt show False by auto
    qed
  qed
  ultimately show ?thesis by simp
qed

lemma startsWith_title: "startsWith t (js ''title:'') = (take 6 t = js ''title:'')"
proof -
  have "length (js ''title:'') = 6" by (simp add: js_def)
  then show ?thesis by (simp only: startsWith_def)
qed

lemma title_line:
  assumes "at_bol prev" "\<forall>x\<in>set l. \<not> is_line_terminator x"
    and "r = [] \<or> is_line_terminator (hd r)" "valued_line l"
    and nb: "dropWhile is_white_space l \<noteq> []"
  shows "map_option trim (rx_run True title_rx prev (l @ r) (False, [])) = spec_title_line l"
proof -
  define t where "t = dropWhile is_white_space l"
  from nb have "\<exists>x\<in>set l. \<not> is_white_space x"
    by (simp add: dropWhile_eq_Nil_conv)
  then have d: "dropWhile is_white_space (l @ r) = t @ r"
    by (auto simp: t_def dropWhile_append1)
  show ?thesis
  proof (cases "take 6 t = js ''title:''")
    case False
    then show ?thesis
      using title_prefix_line [OF assms(3), of t]
      by (simp add: title_at [OF assms(1)] d spec_title_line_def startsWith_title
          t_def [symmetric])
  next
    case True
    have len: "6 \<le> length t"
    proof (rule ccontr)
      assume "\<not> 6 \<le> length t"
      moreover from True have "length (take 6 t) = 6" by (simp add: js_def)
      ultimately show False by simp
    qed
    from True have tl: "title_like l"
      by (simp add: title_like_def startsWith_title t_def)
    with assms(4) True have v: "trim (drop 6 t) \<noteq> []"
      "spec_title_line l = Some (trim (drop 6 t))"
      by (auto simp: valued_line_def spec_title_line_def startsWith_title t_def [symmetric]
          split: if_splits)
    then have "dropWhile is_white_space (drop 6 t) \<noteq> []" by (simp add: trim_Nil_iff)
    from split_dropWhile [OF this] obtain w y v where
      w: "drop 6 t = w @ y # v" "\<forall>x\<in>set w. is_white_space x" "\<not> is_white_space y"
      "dropWhile is_white_space (drop 6 t) = y # v" by blast
    have "set (drop 6 t) \<subseteq> set l"
      using set_drop_subset [of 6 t] set_dropWhileD [of _ is_white_space l]
      by (auto simp: t_def)
    with w(1) assms(2) have nl: "\<forall>x\<in>set v. \<not> is_line_terminator x" by auto
    from len have "drop 6 (t @ r) = w @ y # v @ r" by (simp add: w(1))
    moreover from True len have "take 6 (t @ r) = js ''title:''" by simp
    ultimately have "rx_run True title_rx prev (l @ r) (False, []) = Some (y # v)"
      using ws_group_to_eol(2) [OF w(2,3) nl assms(3)]
      by (simp add: title_at [OF assms(1)] d)
    moreover have "trim (y # v) = trim (drop 6 t)"
      using w(4) trim_dropWhile [of "drop 6 t"] by simp
    ultimately show ?thesis using v(2) by simp
  qed
qed

lemma title_blank_line:
  assumes "at_bol prev" "\<forall>x\<in>set l. is_white_space x" "is_line_terminator c"
  shows "rx_run True title_rx prev (l @ c # s') (False, []) =
           rx_run True title_rx (Some c) s' (False, [])"
proof -
  have "dropWhile is_white_space (l @ c # s') = dropWhile is_white_space s'"
    using assms(2,3) lt_ws by simp
  moreover have "at_bol (Some c)" using assms(3) by (simp add: at_bol_def)
  ultimately show ?thesis by (simp add: title_at assms(1))
qed

lemma title_blank_end:
  assumes "at_bol prev" "\<forall>x\<in>set l. is_white_space x"
  shows "rx_run True title_rx prev l (False, []) = None"
proof -
  from assms(2) have e: "dropWhile is_white_space l = []" by simp
  have "take 6 (dropWhile is_white_space l) \<noteq> js ''title:''"
    unfolding e by (simp add: js_def)
  then show ?thesis by (simp only: title_at [OF assms(1)] if_False)
qed
text \<open>The search over the start positions, line by line.\<close>

lemma exec_from_first:
  "rx_run ml rx prev s (False, []) = Some g \<Longrightarrow> exec_from ml rx prev s = Some g"
  by (cases s) simp_all

lemma exec_skip:
  "\<not> is_line_terminator p \<Longrightarrow> \<forall>x\<in>set l. \<not> is_line_terminator x \<Longrightarrow>
     exec_from True (Bol # k) (Some p) (l @ r) = exec_from True (Bol # k) (Some (last (p # l))) r"
  by (induction l arbitrary: p) (simp_all add: at_bol_def)

lemma exec_line_end:
  assumes "\<forall>x\<in>set l. \<not> is_line_terminator x"
    and "rx_run True (Bol # k) prev l (False, []) = None"
  shows "exec_from True (Bol # k) prev l = None"
proof (cases l)
  case Nil
  with assms(2) show ?thesis by simp
next
  case (Cons x l')
  with assms(1) have x: "\<not> is_line_terminator x" "\<forall>y\<in>set l'. \<not> is_line_terminator y"
    by simp_all
  then have "\<not> is_line_terminator (last (x # l'))"
    using last_in_set [of "x # l'"] by auto
  then have "exec_from True (Bol # k) (Some (last (x # l'))) [] = None"
    by (simp add: at_bol_def)
  with exec_skip [OF x, of k "[]"] have "exec_from True (Bol # k) (Some x) l' = None" by simp
  with Cons assms(2) show ?thesis by simp
qed

lemma exec_line_next:
  assumes "\<forall>x\<in>set l. \<not> is_line_terminator x"
    and "rx_run True (Bol # k) prev (l @ c # s') (False, []) = None"
  shows "exec_from True (Bol # k) prev (l @ c # s') = exec_from True (Bol # k) (Some c) s'"
proof (cases l)
  case Nil
  with assms(2) show ?thesis by simp
next
  case (Cons x l')
  with assms(1) have x: "\<not> is_line_terminator x" "\<forall>y\<in>set l'. \<not> is_line_terminator y"
    by simp_all
  then have "\<not> is_line_terminator (last (x # l'))"
    using last_in_set [of "x # l'"] by auto
  then have "exec_from True (Bol # k) (Some (last (x # l'))) (c # s')
               = exec_from True (Bol # k) (Some c) s'"
    by (simp add: at_bol_def)
  with exec_skip [OF x, of k "c # s'"]
  have "exec_from True (Bol # k) (Some x) (l' @ c # s') = exec_from True (Bol # k) (Some c) s'"
    by simp
  with Cons assms(2) show ?thesis by simp
qed

lemma split_lines_not_Nil: "split_lines s \<noteq> []"
  by (induction s) (auto split: list.splits)

lemma split_lines_last: "\<forall>x\<in>set l. \<not> is_line_terminator x \<Longrightarrow> split_lines l = [l]"
  by (induction l) auto

lemma split_lines_line:
  "\<forall>x\<in>set l. \<not> is_line_terminator x \<Longrightarrow> is_line_terminator c \<Longrightarrow>
     split_lines (l @ c # s') = l # split_lines s'"
  using split_lines_not_Nil [of s'] by (induction l) (auto split: list.splits)

text \<open>Every text is a first line, and then nothing or a line terminator and a text.\<close>

lemma first_line:
  obtains l where "s = l" "\<forall>x\<in>set l. \<not> is_line_terminator x"
  | l c s' where "s = l @ c # s'" "\<forall>x\<in>set l. \<not> is_line_terminator x" "is_line_terminator c"
proof (cases "dropWhile (\<lambda>x. \<not> is_line_terminator x) s")
  case Nil
  then have "\<forall>x\<in>set s. \<not> is_line_terminator x" by (simp add: dropWhile_eq_Nil_conv)
  then show ?thesis using that(1) by blast
next
  case (Cons c s')
  then have "is_line_terminator c"
    using hd_dropWhile [of "\<lambda>x. \<not> is_line_terminator x" s] by auto
  moreover have "s = takeWhile (\<lambda>x. \<not> is_line_terminator x) s @ c # s'"
    using takeWhile_dropWhile_id [of "\<lambda>x. \<not> is_line_terminator x" s] Cons by simp
  moreover have "\<forall>x\<in>set (takeWhile (\<lambda>x. \<not> is_line_terminator x) s). \<not> is_line_terminator x"
    by (auto dest: set_takeWhileD)
  ultimately show ?thesis using that(2) by blast
qed

lemma title_rx_Bol: "title_rx = Bol # tl title_rx"
  by (simp add: title_rx_def)

lemma h1_rx_Bol: "h1_rx = Bol # tl h1_rx"
  by (simp add: h1_rx_def)

lemma spec_title_line_blank: "\<forall>x\<in>set l. is_white_space x \<Longrightarrow> spec_title_line l = None"
proof -
  assume "\<forall>x\<in>set l. is_white_space x"
  then have e: "dropWhile is_white_space l = []" by simp
  show ?thesis unfolding spec_title_line_def e by (simp add: startsWith_def js_def)
qed

text \<open>
  On a document whose lines carry their values, the first match of each expression is the
  first line that the specification's reading selects.
\<close>

lemma title_exec:
  "at_bol prev \<Longrightarrow> list_all valued_line (split_lines s) \<Longrightarrow>
     map_option trim (exec_from True title_rx prev s) = first_some spec_title_line (split_lines s)"
proof (induction "length s" arbitrary: s prev rule: less_induct)
  case less
  show ?case
  proof (cases s rule: first_line)
    case (1 l)
    with less.prems have v: "valued_line l" by (simp add: split_lines_last)
    show ?thesis
    proof (cases "\<forall>x\<in>set l. is_white_space x")
      case True
      from title_blank_end [OF less.prems(1) True]
      have "exec_from True title_rx prev l = None"
        using exec_line_end [OF 1(2), of "tl title_rx" prev] title_rx_Bol by simp
      with 1 True show ?thesis by (simp add: split_lines_last spec_title_line_blank)
    next
      case False
      then have nb: "dropWhile is_white_space l \<noteq> []" by simp
      have r: "map_option trim (rx_run True title_rx prev l (False, [])) = spec_title_line l"
        using title_line [OF less.prems(1) 1(2) _ v nb, of "[]"] by simp
      show ?thesis
      proof (cases "rx_run True title_rx prev l (False, [])")
        case None
        then have "exec_from True title_rx prev l = None"
          using exec_line_end [OF 1(2), of "tl title_rx" prev] title_rx_Bol by simp
        with r None 1 show ?thesis by (auto simp: split_lines_last split: option.splits)
      next
        case (Some g)
        then have "exec_from True title_rx prev l = Some g" by (rule exec_from_first)
        with r Some 1 show ?thesis by (auto simp: split_lines_last split: option.splits)
      qed
    qed
  next
    case (2 l c s')
    with less.prems have v: "valued_line l" "list_all valued_line (split_lines s')"
      by (simp_all add: split_lines_line)
    from 2(3) have b: "at_bol (Some c)" by (simp add: at_bol_def)
    from 2(1) have "length s' < length s" by simp
    from less.hyps [OF this b v(2)]
    have IH: "map_option trim (exec_from True title_rx (Some c) s')
                = first_some spec_title_line (split_lines s')" .
    have sl: "split_lines s = l # split_lines s'"
      using 2 by (simp add: split_lines_line)
    have nx: "rx_run True title_rx prev s (False, []) = None \<Longrightarrow>
                exec_from True title_rx prev s = exec_from True title_rx (Some c) s'"
      using exec_line_next [OF 2(2), of "tl title_rx" prev c s'] title_rx_Bol 2(1) by simp
    show ?thesis
    proof (cases "\<forall>x\<in>set l. is_white_space x")
      case True
      from title_blank_line [OF less.prems(1) True 2(3), of s'] 2(1)
      have e: "rx_run True title_rx prev s (False, []) = rx_run True title_rx (Some c) s' (False, [])"
        by simp
      have "exec_from True title_rx prev s = exec_from True title_rx (Some c) s'"
      proof (cases "rx_run True title_rx (Some c) s' (False, [])")
        case None
        with e nx show ?thesis by simp
      next
        case (Some g)
        with e have "exec_from True title_rx prev s = Some g"
          "exec_from True title_rx (Some c) s' = Some g"
          by (simp_all add: exec_from_first)
        then show ?thesis by simp
      qed
      with IH sl True show ?thesis by (simp add: spec_title_line_blank)
    next
      case False
      then have nb: "dropWhile is_white_space l \<noteq> []" by simp
      have r: "map_option trim (rx_run True title_rx prev s (False, [])) = spec_title_line l"
        using title_line [OF less.prems(1) 2(2) _ v(1) nb, of "c # s'"] 2(1,3) by simp
      show ?thesis
      proof (cases "rx_run True title_rx prev s (False, [])")
        case None
        with nx r IH sl show ?thesis by (auto split: option.splits)
      next
        case (Some g)
        then have "exec_from True title_rx prev s = Some g" by (rule exec_from_first)
        with r Some sl show ?thesis by (auto split: option.splits)
      qed
    qed
  qed
qed

lemma h1_exec:
  "at_bol prev \<Longrightarrow> list_all valued_line (split_lines s) \<Longrightarrow>
     map_option trim (exec_from True h1_rx prev s) = first_some spec_h1_line (split_lines s)"
proof (induction "length s" arbitrary: s prev rule: less_induct)
  case less
  show ?case
  proof (cases s rule: first_line)
    case (1 l)
    with less.prems have v: "valued_line l" by (simp add: split_lines_last)
    have r: "map_option trim (rx_run True h1_rx prev l (False, [])) = spec_h1_line l"
      using h1_line [OF less.prems(1) 1(2) _ v, of "[]"] by simp
    show ?thesis
    proof (cases "rx_run True h1_rx prev l (False, [])")
      case None
      then have "exec_from True h1_rx prev l = None"
        using exec_line_end [OF 1(2), of "tl h1_rx" prev] h1_rx_Bol by simp
      with r None 1 show ?thesis by (auto simp: split_lines_last split: option.splits)
    next
      case (Some g)
      then have "exec_from True h1_rx prev l = Some g" by (rule exec_from_first)
      with r Some 1 show ?thesis by (auto simp: split_lines_last split: option.splits)
    qed
  next
    case (2 l c s')
    with less.prems have v: "valued_line l" "list_all valued_line (split_lines s')"
      by (simp_all add: split_lines_line)
    from 2(3) have b: "at_bol (Some c)" by (simp add: at_bol_def)
    from 2(1) have "length s' < length s" by simp
    from less.hyps [OF this b v(2)]
    have IH: "map_option trim (exec_from True h1_rx (Some c) s')
                = first_some spec_h1_line (split_lines s')" .
    have sl: "split_lines s = l # split_lines s'"
      using 2 by (simp add: split_lines_line)
    have nx: "rx_run True h1_rx prev s (False, []) = None \<Longrightarrow>
                exec_from True h1_rx prev s = exec_from True h1_rx (Some c) s'"
      using exec_line_next [OF 2(2), of "tl h1_rx" prev c s'] h1_rx_Bol 2(1) by simp
    have r: "map_option trim (rx_run True h1_rx prev s (False, [])) = spec_h1_line l"
      using h1_line [OF less.prems(1) 2(2) _ v(1), of "c # s'"] 2(1,3) by simp
    show ?thesis
    proof (cases "rx_run True h1_rx prev s (False, [])")
      case None
      with nx r IH sl show ?thesis by (auto split: option.splits)
    next
      case (Some g)
      then have "exec_from True h1_rx prev s = Some g" by (rule exec_from_first)
      with r Some sl show ?thesis by (auto split: option.splits)
    qed
  qed
qed

lemma first_some_in: "first_some f xs = Some y \<Longrightarrow> \<exists>x\<in>set xs. f x = Some y"
  by (induction xs) (auto split: option.splits)

lemma spec_title_line_nonempty: "spec_title_line l = Some t \<Longrightarrow> t \<noteq> []"
  by (auto simp: spec_title_line_def Let_def split: if_splits)

lemma spec_h1_line_nonempty: "spec_h1_line l = Some t \<Longrightarrow> t \<noteq> []"
  by (auto simp: spec_h1_line_def split: list.splits if_splits)

text \<open>
  On every document whose lines carry their values, the title in the index is the title of
  the reading line by line: the two differ only where a \<open>title:\<close> or a \<open>#\<close> stands
  without a value on its line.
\<close>

lemma extract_title_by_lines:
  assumes "valued_lines raw"
  shows "extract_title raw name = spec_title raw name"
proof -
  from assms have v: "list_all valued_line (split_lines raw)" by (simp add: valued_lines_def)
  have b: "at_bol None" by (simp add: at_bol_def)
  have t: "map_option trim (exec True title_rx raw) = first_some spec_title_line (split_lines raw)"
    unfolding exec_def by (rule title_exec [OF b v])
  have h: "map_option trim (exec True h1_rx raw) = first_some spec_h1_line (split_lines raw)"
    unfolding exec_def by (rule h1_exec [OF b v])
  have nt: "first_some spec_title_line (split_lines raw) = Some x \<Longrightarrow> x \<noteq> []" for x
    using first_some_in spec_title_line_nonempty by fast
  have nh: "first_some spec_h1_line (split_lines raw) = Some x \<Longrightarrow> x \<noteq> []" for x
    using first_some_in spec_h1_line_nonempty by fast
  show ?thesis
    unfolding extract_title_def spec_title_def Let_def t h
    using nt nh by (auto simp: js_or_def split: option.splits)
qed
text \<open>
  The documents of the examples above carry their values; the document of
  \<open>talk2\<close> does not, its \<open>title:\<close> line has no value.
\<close>

lemmas eval_valued =
  valued_lines_def valued_line_def title_like_def heading_like_def spec_title_line_def
  spec_h1_line_def startsWith_def trim_def is_white_space_def is_line_terminator_def js_def

lemma valued_lines_examples:
  "valued_lines (js ''title: My Talk'' @ [10] @ js ''# Intro'')"
  "valued_lines (js ''hello'' @ [10] @ js ''# Intro  '' @ [10] @ js ''# B'')"
  "\<not> valued_lines (js ''---'' @ [10] @ js ''title:'' @ [10] @ js ''---'' @ [10] @ js ''# Intro'' @ [10])"
  "\<not> valued_lines (js ''#'' @ [10] @ js ''text'' @ [10] @ js ''# Real'')"
  by (simp_all add: eval_valued)

lemma extract_title_by_lines_example:
  "extract_title (js ''title: My Talk'' @ [10] @ js ''# Intro'') (js ''talk1'')
     = spec_title (js ''title: My Talk'' @ [10] @ js ''# Intro'') (js ''talk1'')"
  using extract_title_by_lines [of "js ''title: My Talk'' @ [10] @ js ''# Intro''" "js ''talk1''"]
    valued_lines_examples(1) by simp

end
